theory Spec2Isabelle
  imports Main "HOL-Library.Word"
begin

unbundle bit_operations_syntax

section \<open>Data model (internal/models)\<close>

text \<open>
  A \<open>time.Time\<close> is modelled by its instant: the number of nanoseconds since the zero
  instant (January 1, year 1, 00:00:00 UTC), so that \<open>IsZero\<close> is equality with 0 and
  \<open>After\<close> is the strict order. Every time the services store comes from
  \<open>time.Now().UTC()\<close>, which carries no monotonic reading.
\<close>

type_synonym Time = int

definition IsZero :: "Time \<Rightarrow> bool" where
  "IsZero t = (t = 0)"

definition After :: "Time \<Rightarrow> Time \<Rightarrow> bool" where
  "After t u = (u < t)"

record Room =
  rID :: string
  rName :: string
  rEncryptionKey :: string
  rCreatedAt :: Time
  rLastActiveAt :: Time

record Participant =
  pID :: string
  pRoomID :: string
  pUsername :: string
  pAvatar :: string
  pJoinedAt :: Time
  pLastActiveAt :: Time

record ReplyContext =
  rcUsername :: string
  rcContent :: string

record Message =
  mID :: string
  mRoomID :: string
  mParticipantID :: string
  mContent :: string
  mUsername :: string
  mAvatar :: string
  mTimestamp :: Time
  mReplyTo :: "ReplyContext option"

record SendMessageRequest =
  reqParticipantID :: string
  reqContent :: string
  reqUsername :: string
  reqAvatar :: string
  reqReplyTo :: "ReplyContext option"

section \<open>MessageService (internal/services/message.go)\<close>

text \<open>
  The service is a Go map from room id to a slice of messages. A key that is absent
  reads as the nil slice. The mutex is not modelled: every method holds it for its
  whole body, so each method is one atomic step on the map.
\<close>

record MessageService =
  messages :: "string \<rightharpoonup> Message list"

definition NewMessageService :: MessageService where
  "NewMessageService = \<lparr> messages = Map.empty \<rparr>"

text \<open>The slice read by \<open>s.messages[roomID]\<close>: nil (no element) for an absent key.\<close>

definition roomMessages :: "MessageService \<Rightarrow> string \<Rightarrow> Message list" where
  "roomMessages s roomID = (case messages s roomID of None \<Rightarrow> [] | Some ms \<Rightarrow> ms)"

text \<open>
  \<open>SendMessage\<close> draws a fresh id from \<open>uuid.New\<close> and reads the clock; both are
  arguments of the model.
\<close>

definition SendMessage ::
  "string \<Rightarrow> Time \<Rightarrow> MessageService \<Rightarrow> string \<Rightarrow> SendMessageRequest \<Rightarrow> Message \<times> MessageService" where
  "SendMessage uuid now s roomID req =
     (let msg = \<lparr> mID = uuid, mRoomID = roomID, mParticipantID = reqParticipantID req,
                  mContent = reqContent req, mUsername = reqUsername req,
                  mAvatar = reqAvatar req, mTimestamp = now, mReplyTo = reqReplyTo req \<rparr>
      in (msg, s\<lparr> messages := (messages s)(roomID \<mapsto> roomMessages s roomID @ [msg]) \<rparr>))"

definition GetMessages :: "MessageService \<Rightarrow> string \<Rightarrow> Time \<Rightarrow> Message list" where
  "GetMessages s roomID afterTime =
     (case messages s roomID of
        None \<Rightarrow> []
      | Some ms \<Rightarrow>
          if IsZero afterTime then ms
          else filter (\<lambda>msg. After (mTimestamp msg) afterTime) ms)"

definition DeleteRoomMessages :: "MessageService \<Rightarrow> string \<Rightarrow> MessageService" where
  "DeleteRoomMessages s roomID = s\<lparr> messages := (messages s)(roomID := None) \<rparr>"

definition GetMessageCount :: "MessageService \<Rightarrow> string \<Rightarrow> nat" where
  "GetMessageCount s roomID = length (roomMessages s roomID)"

section \<open>Key and id generation (internal/services/room.go)\<close>

subsection \<open>base64Encode, as written\<close>

text \<open>
  The loop of \<open>base64Encode\<close> with its index \<open>i\<close> and its result buffer. \<open>b\<close> is a
  \<open>uint32\<close>; \<open>b>>18&0x3F\<close> parses as \<open>(b>>18)&0x3F\<close> in Go. Every index into
  \<open>base64Chars\<close> is masked to six bits, so it is below 64 and the lookup never panics;
  \<open>data[i+1]\<close> and \<open>data[i+2]\<close> are read only where \<open>remaining\<close> says they exist.
\<close>

definition base64Chars :: string where
  "base64Chars = ''ABCDEFGHIJKLMNOPQRSTUVWXYZabcdefghijklmnopqrstuvwxyz0123456789+/''"

function base64Encode_loop :: "8 word list \<Rightarrow> nat \<Rightarrow> string \<Rightarrow> string" where
  "base64Encode_loop data i result =
     (if i < length data then
        (let remaining = length data - i in
         if remaining \<ge> 3 then
           (let b = (push_bit 16 (ucast (data ! i)) OR push_bit 8 (ucast (data ! (i + 1)))
                       OR ucast (data ! (i + 2)) :: 32 word)
            in base64Encode_loop data (i + 3)
                 (result @ [base64Chars ! unat (drop_bit 18 b AND 0x3F),
                            base64Chars ! unat (drop_bit 12 b AND 0x3F),
                            base64Chars ! unat (drop_bit 6 b AND 0x3F),
                            base64Chars ! unat (b AND 0x3F)]))
         else if remaining = 2 then
           (let b = (push_bit 16 (ucast (data ! i)) OR push_bit 8 (ucast (data ! (i + 1))) :: 32 word)
            in base64Encode_loop data (i + 3)
                 (result @ [base64Chars ! unat (drop_bit 18 b AND 0x3F),
                            base64Chars ! unat (drop_bit 12 b AND 0x3F),
                            base64Chars ! unat (drop_bit 6 b AND 0x3F),
                            CHR ''='']))
         else
           (let b = (push_bit 16 (ucast (data ! i)) :: 32 word)
            in base64Encode_loop data (i + 3)
                 (result @ [base64Chars ! unat (drop_bit 18 b AND 0x3F),
                            base64Chars ! unat (drop_bit 12 b AND 0x3F),
                            CHR ''='', CHR ''=''])))
      else result)"
  by pat_completeness auto
termination
  by (relation "measure (\<lambda>(data, i, result). length data - i)") auto

declare base64Encode_loop.simps [simp del]

definition base64Encode :: "8 word list \<Rightarrow> string" where
  "base64Encode data = base64Encode_loop data 0 []"

text \<open>
  \<open>crypto/rand.Read\<close> either fails or fills the whole buffer. The entropy is an argument
  of the model: \<open>None\<close> is the failing read, \<open>Some f\<close> fills position \<open>k\<close> with \<open>f k\<close>.
\<close>

datatype error =
    RandError
  | RequestError
  | NotFound string
  | Wrap string error

definition rand_Read :: "(nat \<Rightarrow> 8 word) option \<Rightarrow> nat \<Rightarrow> error + 8 word list" where
  "rand_Read src n = (case src of None \<Rightarrow> Inl RandError | Some f \<Rightarrow> Inr (map f [0..<n]))"

text \<open>\<open>hex.EncodeToString\<close>: two lower-case hexadecimal digits for each byte.\<close>

definition hextable :: string where
  "hextable = ''0123456789abcdef''"

definition hex_EncodeToString :: "8 word list \<Rightarrow> string" where
  "hex_EncodeToString bs =
     concat (map (\<lambda>v. [hextable ! unat (drop_bit 4 v), hextable ! unat (v AND 0x0F)]) bs)"

definition generateRoomID :: "(nat \<Rightarrow> 8 word) option \<Rightarrow> error + string" where
  "generateRoomID src =
     (case rand_Read src 4 of Inl e \<Rightarrow> Inl e | Inr bytes \<Rightarrow> Inr (hex_EncodeToString bytes))"

definition generateEncryptionKey :: "(nat \<Rightarrow> 8 word) option \<Rightarrow> error + string" where
  "generateEncryptionKey src =
     (case rand_Read src 32 of Inl e \<Rightarrow> Inl e | Inr bytes \<Rightarrow> Inr (base64Encode bytes))"

subsection \<open>Base 64 as RFC 4648 defines it\<close>

text \<open>
  Written from section 4 of RFC 4648, not from the code: the input is a string of bits,
  each octet most significant bit first; it is cut into groups of six bits from the left;
  a last group that is short is filled with zero bits on the right; each group, read as a
  number, selects a character of the alphabet of Table 1 (\<open>A\<close>--\<open>Z\<close>, \<open>a\<close>--\<open>z\<close>,
  \<open>0\<close>--\<open>9\<close>, \<open>+\<close>, \<open>/\<close>); and \<open>=\<close> is appended until the output length is a
  multiple of four.
\<close>

definition byte_bits :: "8 word \<Rightarrow> bool list" where
  "byte_bits w = map (bit w) [7, 6, 5, 4, 3, 2, 1, 0]"

fun bits_val :: "bool list \<Rightarrow> nat" where
  "bits_val [] = 0"
| "bits_val (b # bs) = of_bool b * 2 ^ length bs + bits_val bs"

fun sextets :: "bool list \<Rightarrow> bool list list" where
  "sextets [] = []"
| "sextets (b # bs) =
     (if length (b # bs) < 6 then [(b # bs) @ replicate (6 - length (b # bs)) False]
      else take 6 (b # bs) # sextets (drop 6 (b # bs)))"

definition rfc4648_char :: "nat \<Rightarrow> char" where
  "rfc4648_char v =
     (if v < 26 then char_of (of_char CHR ''A'' + v)
      else if v < 52 then char_of (of_char CHR ''a'' + (v - 26))
      else if v < 62 then char_of (of_char CHR ''0'' + (v - 52))
      else if v = 62 then CHR ''+'' else CHR ''/'')"

definition rfc4648_encode :: "8 word list \<Rightarrow> string" where
  "rfc4648_encode data =
     (let cs = map (\<lambda>g. rfc4648_char (bits_val g)) (sextets (concat (map byte_bits data)))
      in cs @ replicate ((4 - length cs mod 4) mod 4) CHR ''='')"

definition rfc4648_chars :: "8 word list \<Rightarrow> string" where
  "rfc4648_chars data =
     map (\<lambda>g. rfc4648_char (bits_val g)) (sextets (concat (map byte_bits data)))"

text \<open>
  Decoding, from the same section of the RFC: the padding is dropped, each character is
  looked up in the alphabet (a character outside it makes the input invalid), the
  six-bit groups are strung together and cut into octets, and the bits left over at
  the end, fewer than eight, are discarded.
\<close>

definition rfc4648_value :: "char \<Rightarrow> nat option" where
  "rfc4648_value c =
     (let n = (of_char c :: nat) in
      if of_char CHR ''A'' \<le> n \<and> n \<le> of_char CHR ''Z'' then Some (n - of_char CHR ''A'')
      else if of_char CHR ''a'' \<le> n \<and> n \<le> of_char CHR ''z'' then Some (n - of_char CHR ''a'' + 26)
      else if of_char CHR ''0'' \<le> n \<and> n \<le> of_char CHR ''9'' then Some (n - of_char CHR ''0'' + 52)
      else if c = CHR ''+'' then Some 62
      else if c = CHR ''/'' then Some 63
      else None)"

definition sextet_bits :: "nat \<Rightarrow> bool list" where
  "sextet_bits v = map (bit v) [5, 4, 3, 2, 1, 0]"

fun octets :: "bool list \<Rightarrow> 8 word list" where
  "octets bs = (if length bs < 8 then [] else of_nat (bits_val (take 8 bs)) # octets (drop 8 bs))"

declare octets.simps [simp del]

fun values_of :: "string \<Rightarrow> nat list option" where
  "values_of [] = Some []"
| "values_of (c # cs) =
     (case rfc4648_value c of
        None \<Rightarrow> None
      | Some v \<Rightarrow> (case values_of cs of None \<Rightarrow> None | Some vs \<Rightarrow> Some (v # vs)))"

definition rfc4648_decode :: "string \<Rightarrow> 8 word list option" where
  "rfc4648_decode s =
     (case values_of (takeWhile (\<lambda>c. c \<noteq> CHR ''='') s) of
        None \<Rightarrow> None
      | Some vs \<Rightarrow> Some (octets (concat (map sextet_bits vs))))"

subsection \<open>The loop, one input group at a time\<close>

text \<open>
  The three shapes of the 24-bit word of the loop body, and the loop as a recursion on
  the remaining input; \<open>base64Encode_loop_groups\<close> below shows that this is the loop.
\<close>

definition quantum3 :: "8 word \<Rightarrow> 8 word \<Rightarrow> 8 word \<Rightarrow> 32 word" where
  "quantum3 x y z = push_bit 16 (ucast x) OR push_bit 8 (ucast y) OR ucast z"

definition quantum2 :: "8 word \<Rightarrow> 8 word \<Rightarrow> 32 word" where
  "quantum2 x y = push_bit 16 (ucast x) OR push_bit 8 (ucast y)"

definition quantum1 :: "8 word \<Rightarrow> 32 word" where
  "quantum1 x = push_bit 16 (ucast x)"

definition sextet_char :: "32 word \<Rightarrow> nat \<Rightarrow> char" where
  "sextet_char b k = base64Chars ! unat (drop_bit k b AND 0x3F)"

fun encode_groups :: "8 word list \<Rightarrow> string" where
  "encode_groups (x # y # z # rest) =
     [sextet_char (quantum3 x y z) 18, sextet_char (quantum3 x y z) 12,
      sextet_char (quantum3 x y z) 6, sextet_char (quantum3 x y z) 0] @ encode_groups rest"
| "encode_groups [x, y] =
     [sextet_char (quantum2 x y) 18, sextet_char (quantum2 x y) 12,
      sextet_char (quantum2 x y) 6, CHR ''='']"
| "encode_groups [x] =
     [sextet_char (quantum1 x) 18, sextet_char (quantum1 x) 12, CHR ''='', CHR ''='']"
| "encode_groups [] = []"

section \<open>The Supabase client (internal/supabase/client.go)\<close>

text \<open>
  The Supabase project is outside the repository: a Postgres database behind a REST
  interface, and a realtime service that relays broadcast events. The model keeps the
  two tables of \<open>migrations/001_initial_schema.sql\<close>, the events the realtime service
  has accepted, and a log of every HTTP request the client has issued with its outcome.

  What the database does with a request is fixed by the schema and the filters the
  client writes: an \<open>id=eq.X\<close> filter selects the rows with that id; a \<open>DELETE\<close> or
  \<open>PATCH\<close> that matches no row is still answered with success; \<open>id\<close> is the primary
  key of both tables; \<open>participants.room_id\<close> references \<open>rooms(id)\<close> with
  \<open>ON DELETE CASCADE\<close>. Stored timestamps are kept exactly, and a response that is
  served is well-formed JSON, so the client's \<open>json.Unmarshal\<close> calls succeed.

  Whether a request is served at all (no transport error, no status of 400 or above for
  a reason other than those constraints) is an oracle: \<open>served w n\<close> for the \<open>n\<close>-th
  request issued. \<open>clock w n\<close> is what \<open>time.Now().UTC()\<close> returns while \<open>n\<close> requests
  have been issued. \<open>mapOrder w\<close> is the order in which a \<open>range\<close> over a Go map
  visits its keys, which the language leaves open: it is given the keys in insertion
  order and returns them in the order visited.
\<close>

text \<open>
  The client pastes an id into the URL as it is (\<open>participants?id=eq.%s\<close>,
  \<open>rooms?id=eq.%s\<close>, \<open>participants?room_id=eq.%s\<close>), without escaping. The filters
  below are the ones the database applies when the pasted text reaches it unchanged,
  which is so for text made of letters, digits, \<open>-\<close> and \<open>_\<close> only: every id that
  \<open>generateRoomID\<close> (hexadecimal digits) and \<open>uuid.New\<close> (hexadecimal digits and \<open>-\<close>)
  produce. Text with a URL metacharacter (\<open>#\<close>, \<open>&\<close>, \<open>%\<close>, ...) reaches the database
  as a different filter, which is not modelled; statements about which rows a call
  selects are made for ids that are \<open>urlSafe\<close>.
\<close>

definition urlSafe :: "string \<Rightarrow> bool" where
  "urlSafe s =
     list_all (\<lambda>c. c \<in> set ''abcdefghijklmnopqrstuvwxyzABCDEFGHIJKLMNOPQRSTUVWXYZ0123456789-_'') s"

record World =
  served :: "nat \<Rightarrow> bool"
  clock :: "nat \<Rightarrow> Time"
  mapOrder :: "string list \<Rightarrow> string list"

datatype Request =
    ReqCreateRoom Room
  | ReqGetRoom string
  | ReqUpdateRoomActivity string Time
  | ReqDeleteRoom string
  | ReqAddParticipant Participant
  | ReqGetParticipants string
  | ReqGetParticipant string
  | ReqRemoveParticipant string
  | ReqGetInactiveRooms Time
  | ReqUpdateParticipantActivity string Time
  | ReqGetInactiveParticipants Time
  | ReqBroadcastParticipant string string Participant
  | ReqBroadcastRoom string Room

text \<open>
  An event as the realtime service relays it: the topic, the event kind
  (\<open>participant\<close> or \<open>room\<close>), the action, and the fields of the payload.
\<close>

datatype Event =
    ParticipantEvent string string string string string string
  | RoomEvent string string string string

record Supabase =
  rooms :: "Room list"
  participants :: "Participant list"
  published :: "Event list"
  requests :: "(Request \<times> bool) list"

text \<open>
  One HTTP exchange (\<open>doRequest\<close>, and the same steps inlined in the two broadcast
  methods): the request is logged; if it is served and the database accepts it, its
  effect takes place.
\<close>

definition doRequest ::
  "World \<Rightarrow> Request \<Rightarrow> bool \<Rightarrow> (Supabase \<Rightarrow> Supabase) \<Rightarrow> Supabase \<Rightarrow> bool \<times> Supabase" where
  "doRequest w req accepted effect db =
     (let ok = (served w (length (requests db)) \<and> accepted)
      in (ok, (if ok then effect db else db)\<lparr> requests := requests db @ [(req, ok)] \<rparr>))"

definition db_CreateRoom :: "World \<Rightarrow> Room \<Rightarrow> Supabase \<Rightarrow> error option \<times> Supabase" where
  "db_CreateRoom w room db =
     (let (ok, db') = doRequest w (ReqCreateRoom room) (rID room \<notin> set (map rID (rooms db)))
             (\<lambda>d. d\<lparr> rooms := rooms d @ [room] \<rparr>) db
      in (if ok then None else Some RequestError, db'))"

definition db_GetRoom :: "World \<Rightarrow> string \<Rightarrow> Supabase \<Rightarrow> (error + Room) \<times> Supabase" where
  "db_GetRoom w ident db =
     (let (ok, db') = doRequest w (ReqGetRoom ident) True (\<lambda>d. d) db
      in if \<not> ok then (Inl RequestError, db') else
          (case filter (\<lambda>r. rID r = ident) (rooms db) of
             [] \<Rightarrow> (Inl (NotFound ''room not found''), db')
           | r # _ \<Rightarrow> (Inr r, db')))"

definition db_UpdateRoomActivity :: "World \<Rightarrow> string \<Rightarrow> Supabase \<Rightarrow> error option \<times> Supabase" where
  "db_UpdateRoomActivity w roomID db =
     (let now = clock w (length (requests db));
          (ok, db') = doRequest w (ReqUpdateRoomActivity roomID now) True
             (\<lambda>d. d\<lparr> rooms := map (\<lambda>r. if rID r = roomID then r\<lparr> rLastActiveAt := now \<rparr> else r)
                                  (rooms d) \<rparr>) db
      in (if ok then None else Some RequestError, db'))"

definition db_DeleteRoom :: "World \<Rightarrow> string \<Rightarrow> Supabase \<Rightarrow> error option \<times> Supabase" where
  "db_DeleteRoom w ident db =
     (let (ok, db') = doRequest w (ReqDeleteRoom ident) True
             (\<lambda>d. d\<lparr> rooms := filter (\<lambda>r. rID r \<noteq> ident) (rooms d),
                      participants := filter (\<lambda>p. pRoomID p \<noteq> ident) (participants d) \<rparr>) db
      in (if ok then None else Some RequestError, db'))"

definition db_AddParticipant :: "World \<Rightarrow> Participant \<Rightarrow> Supabase \<Rightarrow> error option \<times> Supabase" where
  "db_AddParticipant w participant db =
     (let (ok, db') = doRequest w (ReqAddParticipant participant)
             (pID participant \<notin> set (map pID (participants db)) \<and>
              pRoomID participant \<in> set (map rID (rooms db)))
             (\<lambda>d. d\<lparr> participants := participants d @ [participant] \<rparr>) db
      in (if ok then None else Some RequestError, db'))"

definition db_GetParticipants ::
  "World \<Rightarrow> string \<Rightarrow> Supabase \<Rightarrow> (error + Participant list) \<times> Supabase" where
  "db_GetParticipants w roomID db =
     (let (ok, db') = doRequest w (ReqGetParticipants roomID) True (\<lambda>d. d) db
      in if \<not> ok then (Inl RequestError, db')
         else (Inr (filter (\<lambda>p. pRoomID p = roomID) (participants db)), db'))"

definition db_GetParticipant ::
  "World \<Rightarrow> string \<Rightarrow> Supabase \<Rightarrow> (error + Participant) \<times> Supabase" where
  "db_GetParticipant w participantID db =
     (let (ok, db') = doRequest w (ReqGetParticipant participantID) True (\<lambda>d. d) db
      in if \<not> ok then (Inl RequestError, db') else
          (case filter (\<lambda>p. pID p = participantID) (participants db) of
             [] \<Rightarrow> (Inl (NotFound (''participant not found: '' @ participantID)), db')
           | p # _ \<Rightarrow> (Inr p, db')))"

definition db_RemoveParticipant :: "World \<Rightarrow> string \<Rightarrow> Supabase \<Rightarrow> error option \<times> Supabase" where
  "db_RemoveParticipant w participantID db =
     (let (ok, db') = doRequest w (ReqRemoveParticipant participantID) True
             (\<lambda>d. d\<lparr> participants := filter (\<lambda>p. pID p \<noteq> participantID) (participants d) \<rparr>) db
      in (if ok then None else Some RequestError, db'))"

definition db_CountParticipants :: "World \<Rightarrow> string \<Rightarrow> Supabase \<Rightarrow> (error + nat) \<times> Supabase" where
  "db_CountParticipants w roomID db =
     (case db_GetParticipants w roomID db of
        (Inl e, db') \<Rightarrow> (Inl e, db')
      | (Inr ps, db') \<Rightarrow> (Inr (length ps), db'))"

text \<open>
  The two inactivity queries format the threshold with \<open>time.RFC3339\<close>, which has no
  fraction of a second: the database compares against the threshold cut to whole seconds.
\<close>

definition formatRFC3339 :: "Time \<Rightarrow> Time" where
  "formatRFC3339 t = (t div 1000000000) * 1000000000"

definition db_GetInactiveRooms :: "World \<Rightarrow> Time \<Rightarrow> Supabase \<Rightarrow> (error + Room list) \<times> Supabase" where
  "db_GetInactiveRooms w threshold db =
     (let (ok, db') = doRequest w (ReqGetInactiveRooms threshold) True (\<lambda>d. d) db
      in if \<not> ok then (Inl RequestError, db') else
          (Inr (filter (\<lambda>r. rLastActiveAt r < formatRFC3339 threshold) (rooms db)), db'))"

definition db_GetInactiveParticipants ::
  "World \<Rightarrow> Time \<Rightarrow> Supabase \<Rightarrow> (error + Participant list) \<times> Supabase" where
  "db_GetInactiveParticipants w threshold db =
     (let (ok, db') = doRequest w (ReqGetInactiveParticipants threshold) True (\<lambda>d. d) db
      in if \<not> ok then (Inl RequestError, db') else
          (Inr (filter (\<lambda>p. pLastActiveAt p < formatRFC3339 threshold) (participants db)), db'))"

definition db_UpdateParticipantActivity ::
  "World \<Rightarrow> string \<Rightarrow> Supabase \<Rightarrow> error option \<times> Supabase" where
  "db_UpdateParticipantActivity w participantID db =
     (let now = clock w (length (requests db));
          (ok, db') = doRequest w (ReqUpdateParticipantActivity participantID now) True
             (\<lambda>d. d\<lparr> participants :=
                        map (\<lambda>p. if pID p = participantID then p\<lparr> pLastActiveAt := now \<rparr> else p)
                          (participants d) \<rparr>) db
      in (if ok then None else Some RequestError, db'))"

definition db_BroadcastParticipantEvent ::
  "World \<Rightarrow> string \<Rightarrow> string \<Rightarrow> Participant \<Rightarrow> Supabase \<Rightarrow> error option \<times> Supabase" where
  "db_BroadcastParticipantEvent w roomID action participant db =
     (let (ok, db') = doRequest w (ReqBroadcastParticipant roomID action participant) True
             (\<lambda>d. d\<lparr> published := published d @
                        [ParticipantEvent (''room:'' @ roomID) action (pID participant)
                           (pRoomID participant) (pUsername participant) (pAvatar participant)] \<rparr>) db
      in (if ok then None else Some RequestError, db'))"

definition db_BroadcastRoomEvent ::
  "World \<Rightarrow> string \<Rightarrow> Room \<Rightarrow> Supabase \<Rightarrow> error option \<times> Supabase" where
  "db_BroadcastRoomEvent w action room db =
     (let (ok, db') = doRequest w (ReqBroadcastRoom action room) True
             (\<lambda>d. d\<lparr> published := published d @
                        [RoomEvent ''rooms:lobby'' action (rID room) (rName room)] \<rparr>) db
      in (if ok then None else Some RequestError, db'))"

section \<open>RoomService (internal/services/room.go)\<close>

text \<open>
  Each method threads the Supabase state through its calls in the order of the source.
  Errors that the source only logs leave no trace in the result; errors it returns are
  wrapped as \<open>fmt.Errorf("...: %w", err)\<close> does. The two entropy arguments of
  \<open>CreateRoom\<close> are the two reads of \<open>crypto/rand\<close>; the \<open>uuid\<close> argument of
  \<open>JoinRoom\<close> is the value of \<open>uuid.New().String()\<close>.
\<close>

definition CreateRoom ::
  "World \<Rightarrow> (nat \<Rightarrow> 8 word) option \<Rightarrow> (nat \<Rightarrow> 8 word) option \<Rightarrow> string \<Rightarrow> Supabase
     \<Rightarrow> (error + Room) \<times> Supabase" where
  "CreateRoom w idEntropy keyEntropy name db =
     (case generateRoomID idEntropy of
        Inl e \<Rightarrow> (Inl (Wrap ''failed to generate room ID'' e), db)
      | Inr roomID \<Rightarrow>
          (case generateEncryptionKey keyEntropy of
             Inl e \<Rightarrow> (Inl (Wrap ''failed to generate encryption key'' e), db)
           | Inr encryptionKey \<Rightarrow>
               (let name' = (if name = [] then ''Untitled Room'' else name);
                    now = clock w (length (requests db));
                    room = \<lparr> rID = roomID, rName = name', rEncryptionKey = encryptionKey,
                             rCreatedAt = now, rLastActiveAt = now \<rparr>
                in case db_CreateRoom w room db of
                     (Some e, db') \<Rightarrow> (Inl (Wrap ''failed to create room'' e), db')
                   | (None, db') \<Rightarrow> (Inr room, db'))))"

definition JoinRoom ::
  "World \<Rightarrow> string \<Rightarrow> string \<Rightarrow> string \<Rightarrow> string \<Rightarrow> Supabase
     \<Rightarrow> (error + Participant \<times> Room \<times> Participant list) \<times> Supabase" where
  "JoinRoom w uuid roomID username avatar db =
     (case db_GetRoom w roomID db of
        (Inl e, db1) \<Rightarrow> (Inl (Wrap ''room not found'' e), db1)
      | (Inr room, db1) \<Rightarrow>
          (let now = clock w (length (requests db1));
               participant = \<lparr> pID = uuid, pRoomID = roomID, pUsername = username,
                               pAvatar = avatar, pJoinedAt = now, pLastActiveAt = now \<rparr>
           in case db_AddParticipant w participant db1 of
                (Some e, db2) \<Rightarrow> (Inl (Wrap ''failed to join room'' e), db2)
              | (None, db2) \<Rightarrow>
                  (let db3 = snd (db_BroadcastParticipantEvent w roomID ''join'' participant db2);
                       db4 = snd (db_UpdateRoomActivity w roomID db3)
                   in case db_GetParticipants w roomID db4 of
                        (Inl e, db5) \<Rightarrow> (Inl e, db5)
                      | (Inr ps, db5) \<Rightarrow> (Inr (participant, room, ps), db5))))"

definition LeaveRoom :: "World \<Rightarrow> string \<Rightarrow> string \<Rightarrow> Supabase \<Rightarrow> error option \<times> Supabase" where
  "LeaveRoom w roomID participantID db =
     (let (fetched, db1) = db_GetParticipant w participantID db;
          participant = (case fetched of Inl e \<Rightarrow> None | Inr p \<Rightarrow> Some p)
      in case db_RemoveParticipant w participantID db1 of
           (Some e, db2) \<Rightarrow> (Some (Wrap ''failed to leave room'' e), db2)
         | (None, db2) \<Rightarrow>
             (let db3 = (case participant of
                           None \<Rightarrow> db2
                         | Some p \<Rightarrow> snd (db_BroadcastParticipantEvent w roomID ''leave'' p db2))
              in case db_CountParticipants w roomID db3 of
                   (Inl e, db4) \<Rightarrow> (Some (Wrap ''failed to check participant count'' e), db4)
                 | (Inr count, db4) \<Rightarrow>
                     if count = 0 then
                       (case db_DeleteRoom w roomID db4 of
                          (Some e, db5) \<Rightarrow> (Some (Wrap ''failed to delete empty room'' e), db5)
                        | (None, db5) \<Rightarrow> (None, db5))
                     else (None, db4)))"

definition UpdateHeartbeat ::
  "World \<Rightarrow> string \<Rightarrow> string \<Rightarrow> Supabase \<Rightarrow> error option \<times> Supabase" where
  "UpdateHeartbeat w roomID participantID db =
     (case db_UpdateRoomActivity w roomID db of
        (Some e, db1) \<Rightarrow> (Some e, db1)
      | (None, db1) \<Rightarrow>
          if participantID \<noteq> [] then
            (case db_UpdateParticipantActivity w participantID db1 of
               (Some e, db2) \<Rightarrow> (Some e, db2)
             | (None, db2) \<Rightarrow> (None, db2))
          else (None, db1))"

section \<open>CleanupService (internal/services/cleanup.go)\<close>

text \<open>
  The first loop of \<open>cleanupParticipants\<close>: it removes each inactive participant and, when
  the removal succeeded, broadcasts the leave event and records the room in
  \<open>roomsToCheck\<close>. \<open>roomsToCheck\<close> is a Go map used as a set; the model keeps its keys in
  insertion order, without repetition.
\<close>

fun removeInactive ::
  "World \<Rightarrow> Participant list \<Rightarrow> string list \<Rightarrow> Supabase \<Rightarrow> string list \<times> Supabase" where
  "removeInactive w [] roomsToCheck db = (roomsToCheck, db)"
| "removeInactive w (p # ps) roomsToCheck db =
     (case db_RemoveParticipant w (pID p) db of
        (Some e, db1) \<Rightarrow> removeInactive w ps roomsToCheck db1
      | (None, db1) \<Rightarrow>
          (let db2 = snd (db_BroadcastParticipantEvent w (pRoomID p) ''leave'' p db1)
           in removeInactive w ps
                (if pRoomID p \<in> set roomsToCheck then roomsToCheck else roomsToCheck @ [pRoomID p])
                db2))"

text \<open>The second loop: recount each affected room and delete it when it is empty.\<close>

fun deleteEmptyRooms :: "World \<Rightarrow> string list \<Rightarrow> Supabase \<Rightarrow> Supabase" where
  "deleteEmptyRooms w [] db = db"
| "deleteEmptyRooms w (roomID # rest) db =
     (case db_CountParticipants w roomID db of
        (Inl e, db1) \<Rightarrow> deleteEmptyRooms w rest db1
      | (Inr count, db1) \<Rightarrow>
          if count = 0 then deleteEmptyRooms w rest (snd (db_DeleteRoom w roomID db1))
          else deleteEmptyRooms w rest db1)"

definition cleanupParticipants :: "World \<Rightarrow> Time \<Rightarrow> Supabase \<Rightarrow> Supabase" where
  "cleanupParticipants w threshold db =
     (case db_GetInactiveParticipants w threshold db of
        (Inl e, db1) \<Rightarrow> db1
      | (Inr ps, db1) \<Rightarrow>
          if length ps = 0 then db1
          else (let (roomsToCheck, db2) = removeInactive w ps [] db1
                in deleteEmptyRooms w (mapOrder w roomsToCheck) db2))"

fun deleteRooms :: "World \<Rightarrow> Room list \<Rightarrow> Supabase \<Rightarrow> Supabase" where
  "deleteRooms w [] db = db"
| "deleteRooms w (room # rest) db = deleteRooms w rest (snd (db_DeleteRoom w (rID room) db))"

definition cleanupRooms :: "World \<Rightarrow> Time \<Rightarrow> Supabase \<Rightarrow> Supabase" where
  "cleanupRooms w threshold db =
     (case db_GetInactiveRooms w threshold db of
        (Inl e, db1) \<Rightarrow> db1
      | (Inr rs, db1) \<Rightarrow> if length rs = 0 then db1 else deleteRooms w rs db1)"

text \<open>\<open>timeout\<close> is the \<open>time.Duration\<close> of the service, in nanoseconds.\<close>

definition cleanup :: "World \<Rightarrow> int \<Rightarrow> Supabase \<Rightarrow> Supabase" where
  "cleanup w timeout db =
     (let threshold = clock w (length (requests db)) - timeout
      in cleanupRooms w threshold (cleanupParticipants w threshold db))"

text \<open>
  \<open>Start\<close> creates the ticker and then only waits in its \<open>select\<close>. The model is given
  the signals that arrive, in order: a tick of the ticker (one per interval) or the
  closing of \<open>stopChan\<close>. When no further signal arrives the goroutine is blocked in the
  \<open>select\<close>, and the state is what it was after the last signal.
\<close>

datatype Signal = Tick | Stop

fun Start :: "World \<Rightarrow> int \<Rightarrow> Signal list \<Rightarrow> Supabase \<Rightarrow> Supabase" where
  "Start w timeout [] db = db"
| "Start w timeout (Tick # signals) db = Start w timeout signals (cleanup w timeout db)"
| "Start w timeout (Stop # signals) db = db"

section \<open>The server (cmd/server/main.go, internal/handlers/room.go)\<close>

text \<open>
  \<open>main\<close> builds one Supabase client, shared by the room service and the cleanup
  service, and one message service, held by the message handler only. The room handler
  of \<open>POST /api/rooms/{id}/leave\<close> decodes the body (\<open>None\<close>: the body is not JSON),
  checks the two ids and calls the room service; it answers with the HTTP status.
\<close>

record Server =
  database :: Supabase
  messageService :: MessageService

definition RoomHandler_LeaveRoom ::
  "World \<Rightarrow> string \<Rightarrow> string option \<Rightarrow> Server \<Rightarrow> nat \<times> Server" where
  "RoomHandler_LeaveRoom w roomID body srv =
     (if roomID = [] then (400, srv)
      else case body of
             None \<Rightarrow> (400, srv)
           | Some participantID \<Rightarrow>
               if participantID = [] then (400, srv)
               else (case LeaveRoom w roomID participantID (database srv) of
                       (Some e, db') \<Rightarrow> (500, srv\<lparr> database := db' \<rparr>)
                     | (None, db') \<Rightarrow> (204, srv\<lparr> database := db' \<rparr>)))"

text \<open>One run of the cleanup worker inside the server: it holds the Supabase client only.\<close>

definition Server_cleanup :: "World \<Rightarrow> int \<Rightarrow> Server \<Rightarrow> Server" where
  "Server_cleanup w timeout srv = srv\<lparr> database := cleanup w timeout (database srv) \<rparr>"

section \<open>The websocket hub (internal/websocket/hub.go, client.go)\<close>

text \<open>
  A \<open>*Client\<close> is an address; the hub's room sets hold addresses, and the clients
  themselves live in a store from addresses to client objects, so that closing a
  client's channel is seen through every reference to it. Of a client the hub touches
  the buffered \<open>send\<close> channel (created with capacity 256 by \<open>NewClient\<close>) and the
  room id. The channel is its queued payloads, oldest first, and whether it is closed.
\<close>

record Conn =
  send :: "8 word list list"
  sendClosed :: bool
  cRoomID :: string
  cParticipantID :: string
  cUsername :: string
  cAvatar :: string

definition sendCapacity :: nat where
  "sendCapacity = 256"

record Hub =
  hubRooms :: "string \<rightharpoonup> nat set"
  conns :: "nat \<Rightarrow> Conn"
  hubMessageService :: "MessageService option"

record BroadcastMessage =
  bRoomID :: string
  bMessage :: "8 word list"
  bSender :: "nat option"

record MessagePayload =
  plID :: string
  plParticipantID :: string
  plContent :: string
  plTimestamp :: string
  plUsername :: string
  plAvatar :: string
  plReplyTo :: "ReplyContext option"

text \<open>
  What the hub takes from outside: the two \<open>json.Unmarshal\<close> calls of
  \<open>storeMessageIfApplicable\<close> (\<open>None\<close>: a parse error; the first yields the type and the
  raw payload of a \<open>WebSocketMessage\<close>), the fresh id and the clock read by
  \<open>SendMessage\<close>, and the order in which a \<open>range\<close> visits a set of clients.
\<close>

record HubEnv =
  unmarshalMessage :: "8 word list \<Rightarrow> (string \<times> 8 word list) option"
  unmarshalPayload :: "8 word list \<Rightarrow> MessagePayload option"
  newUUID :: string
  nowUTC :: Time
  rangeOrder :: "nat set \<Rightarrow> nat list"

datatype panic = SendOnClosedChannel | CloseOfClosedChannel

definition NewHub :: "MessageService option \<Rightarrow> (nat \<Rightarrow> Conn) \<Rightarrow> Hub" where
  "NewHub ms store = \<lparr> hubRooms = Map.empty, conns = store, hubMessageService = ms \<rparr>"

text \<open>The clients registered in a room: \<open>h.rooms[roomID]\<close>, empty for an absent key.\<close>

definition roomClients :: "Hub \<Rightarrow> string \<Rightarrow> nat set" where
  "roomClients h roomID = (case hubRooms h roomID of None \<Rightarrow> {} | Some cs \<Rightarrow> cs)"

definition registerClient :: "Hub \<Rightarrow> nat \<Rightarrow> Hub" where
  "registerClient h client =
     (let roomID = cRoomID (conns h client)
      in h\<lparr> hubRooms := (hubRooms h)(roomID \<mapsto> insert client (roomClients h roomID)) \<rparr>)"

definition unregisterClient :: "Hub \<Rightarrow> nat \<Rightarrow> panic + Hub" where
  "unregisterClient h client =
     (let roomID = cRoomID (conns h client)
      in case hubRooms h roomID of
           None \<Rightarrow> Inr h
         | Some clients \<Rightarrow>
             if client \<in> clients then
               (if sendClosed (conns h client) then Inl CloseOfClosedChannel
                else
                  (let clients' = clients - {client};
                       store' = (conns h)(client := (conns h client)\<lparr> sendClosed := True \<rparr>)
                   in Inr (h\<lparr> hubRooms := (if clients' = {} then (hubRooms h)(roomID := None)
                                            else (hubRooms h)(roomID \<mapsto> clients')),
                              conns := store' \<rparr>)))
             else Inr h)"

definition storeMessageIfApplicable :: "HubEnv \<Rightarrow> Hub \<Rightarrow> string \<Rightarrow> 8 word list \<Rightarrow> Hub" where
  "storeMessageIfApplicable env h roomID rawMessage =
     (case hubMessageService h of
        None \<Rightarrow> h
      | Some ms \<Rightarrow>
          (case unmarshalMessage env rawMessage of
             None \<Rightarrow> h
           | Some (ty, rawPayload) \<Rightarrow>
               if ty \<noteq> ''message'' then h
               else (case unmarshalPayload env rawPayload of
                       None \<Rightarrow> h
                     | Some payload \<Rightarrow>
                         (let req = \<lparr> reqParticipantID = plParticipantID payload,
                                      reqContent = plContent payload,
                                      reqUsername = plUsername payload,
                                      reqAvatar = plAvatar payload,
                                      reqReplyTo = plReplyTo payload \<rparr>
                          in h\<lparr> hubMessageService :=
                                  Some (snd (SendMessage (newUUID env) (nowUTC env) ms roomID req)) \<rparr>))))"

text \<open>
  The loop of \<open>broadcastToRoom\<close> over the clients in the order visited, with
  \<open>sentCount\<close>. The \<open>select\<close> with a \<open>default\<close> branch never waits: a send on a closed
  channel panics, a send on a channel with room left is queued, and a full channel takes
  the \<open>default\<close> branch, which deletes the client from the room's set (if the room is
  still in the map) and closes its channel.
\<close>

fun fanout :: "BroadcastMessage \<Rightarrow> nat list \<Rightarrow> nat \<Rightarrow> Hub \<Rightarrow> panic + nat \<times> Hub" where
  "fanout msg [] sentCount h = Inr (sentCount, h)"
| "fanout msg (client # rest) sentCount h =
     (if bSender msg \<noteq> None \<and> Some client = bSender msg then fanout msg rest sentCount h
      else if sendClosed (conns h client) then Inl SendOnClosedChannel
      else if length (send (conns h client)) < sendCapacity then
        fanout msg rest (sentCount + 1)
          (h\<lparr> conns := (conns h)(client := (conns h client)\<lparr> send := send (conns h client) @ [bMessage msg] \<rparr>) \<rparr>)
      else
        (case hubRooms h (bRoomID msg) of
           Some clients \<Rightarrow>
             fanout msg rest sentCount
               (h\<lparr> hubRooms := (hubRooms h)(bRoomID msg \<mapsto> clients - {client}),
                    conns := (conns h)(client := (conns h client)\<lparr> sendClosed := True \<rparr>) \<rparr>)
         | None \<Rightarrow> fanout msg rest sentCount h))"

definition broadcastToRoom :: "HubEnv \<Rightarrow> Hub \<Rightarrow> BroadcastMessage \<Rightarrow> panic + nat \<times> Hub" where
  "broadcastToRoom env h msg =
     (let clients = roomClients h (bRoomID msg);
          h1 = storeMessageIfApplicable env h (bRoomID msg) (bMessage msg)
      in fanout msg (rangeOrder env clients) 0 h1)"

definition GetRoomClientCount :: "Hub \<Rightarrow> string \<Rightarrow> nat" where
  "GetRoomClientCount h roomID = card (roomClients h roomID)"

section \<open>Properties stated on request traces and hub states\<close>

text \<open>The requests an operation issued: what it appended to the log.\<close>

definition issued :: "Supabase \<Rightarrow> Supabase \<Rightarrow> (Request \<times> bool) list" where
  "issued before after = drop (length (requests before)) (requests after)"

text \<open>
  The store mutation that a participant event reports has succeeded earlier in the
  trace: the insert of that participant for a join, the delete of that participant's id
  for a leave.
\<close>

definition committed :: "(Request \<times> bool) list \<Rightarrow> string \<Rightarrow> Participant \<Rightarrow> bool" where
  "committed earlier action p =
     (if action = ''join'' then (ReqAddParticipant p, True) \<in> set earlier
      else if action = ''leave'' then (ReqRemoveParticipant (pID p), True) \<in> set earlier
      else False)"

text \<open>
  Persist-then-broadcast: scanning the trace from its start, every participant broadcast
  finds its mutation committed among the requests before it.
\<close>

fun ptb_from :: "(Request \<times> bool) list \<Rightarrow> (Request \<times> bool) list \<Rightarrow> bool" where
  "ptb_from earlier [] = True"
| "ptb_from earlier (r # later) =
     ((case fst r of
         ReqBroadcastParticipant roomID action p \<Rightarrow> committed earlier action p
       | _ \<Rightarrow> True) \<and> ptb_from (earlier @ [r]) later)"

definition persist_then_broadcast :: "(Request \<times> bool) list \<Rightarrow> bool" where
  "persist_then_broadcast tr = ptb_from [] tr"

text \<open>
  A step from \<open>before\<close> to \<open>after\<close> only appends to the request log, and what it appends
  keeps persist-then-broadcast behind any earlier trace: each of its broadcasts has its
  mutation inside the step.
\<close>

definition self_persisting :: "Supabase \<Rightarrow> Supabase \<Rightarrow> bool" where
  "self_persisting before after =
     (requests after = requests before @ issued before after \<and>
      (\<forall>earlier. ptb_from earlier (issued before after)))"

text \<open>A last-active bump of the room is among the given requests.\<close>

definition bumps :: "string \<Rightarrow> (Request \<times> bool) list \<Rightarrow> bool" where
  "bumps roomID tr =
     list_ex (\<lambda>r. case fst r of ReqUpdateRoomActivity ident t \<Rightarrow> ident = roomID | _ \<Rightarrow> False) tr"

text \<open>
  Two readings of where the bump stands. \<open>bump_precedes_join\<close>: every join event of the
  trace finds a bump of its room among the requests before it. \<open>join_precedes_bump\<close>:
  no join event of the trace has a bump of its room before it, and a bump is issued
  after the event.
\<close>

fun bump_precedes_join_from :: "(Request \<times> bool) list \<Rightarrow> (Request \<times> bool) list \<Rightarrow> bool" where
  "bump_precedes_join_from earlier [] = True"
| "bump_precedes_join_from earlier (r # later) =
     ((case fst r of
         ReqBroadcastParticipant roomID action p \<Rightarrow>
           (if action = ''join'' then bumps roomID earlier else True)
       | _ \<Rightarrow> True) \<and> bump_precedes_join_from (earlier @ [r]) later)"

definition bump_precedes_join :: "(Request \<times> bool) list \<Rightarrow> bool" where
  "bump_precedes_join tr = bump_precedes_join_from [] tr"

fun join_precedes_bump_from :: "(Request \<times> bool) list \<Rightarrow> (Request \<times> bool) list \<Rightarrow> bool" where
  "join_precedes_bump_from earlier [] = True"
| "join_precedes_bump_from earlier (r # later) =
     ((case fst r of
         ReqBroadcastParticipant roomID action p \<Rightarrow>
           (if action = ''join'' then \<not> bumps roomID earlier \<and> bumps roomID later else True)
       | _ \<Rightarrow> True) \<and> join_precedes_bump_from (earlier @ [r]) later)"

definition join_precedes_bump :: "(Request \<times> bool) list \<Rightarrow> bool" where
  "join_precedes_bump tr = join_precedes_bump_from [] tr"

text \<open>Room events among the published events, and room broadcasts among the requests.\<close>

definition roomEvents :: "Event list \<Rightarrow> Event list" where
  "roomEvents evs = filter (\<lambda>e. case e of RoomEvent topic action ident name \<Rightarrow> True | _ \<Rightarrow> False) evs"

definition roomBroadcasts :: "(Request \<times> bool) list \<Rightarrow> (Request \<times> bool) list" where
  "roomBroadcasts tr = filter (\<lambda>r. case fst r of ReqBroadcastRoom action room \<Rightarrow> True | _ \<Rightarrow> False) tr"

text \<open>
  The outcome the backpressure policy describes for a broadcast \<open>msg\<close> that takes the hub
  from \<open>h\<close> to \<open>h'\<close>, with \<open>s\<close> the saturated client: every other client of the room that
  is not the sender has the payload queued behind what it had; \<open>s\<close> is out of the room's
  set and its channel is closed.
\<close>

definition delivered_to_others :: "Hub \<Rightarrow> BroadcastMessage \<Rightarrow> nat \<Rightarrow> Hub \<Rightarrow> bool" where
  "delivered_to_others h msg s h' =
     (\<forall>c \<in> roomClients h (bRoomID msg) - {s}.
        bSender msg = Some c \<or> send (conns h' c) = send (conns h c) @ [bMessage msg])"

definition dropped :: "BroadcastMessage \<Rightarrow> nat \<Rightarrow> Hub \<Rightarrow> bool" where
  "dropped msg s h' = (s \<notin> roomClients h' (bRoomID msg) \<and> sendClosed (conns h' s))"

definition backpressure_outcome :: "HubEnv \<Rightarrow> Hub \<Rightarrow> BroadcastMessage \<Rightarrow> nat \<Rightarrow> bool" where
  "backpressure_outcome env h msg s =
     (case broadcastToRoom env h msg of
        Inl p \<Rightarrow> False
      | Inr (sentCount, h') \<Rightarrow> delivered_to_others h msg s h' \<and> dropped msg s h')"

text \<open>
  For the loop of the broadcast: a client is a target unless it is the sender; it has
  room if its channel is not full; and one delivery attempt on an open channel either
  queues the payload or closes the channel.
\<close>

definition is_target :: "BroadcastMessage \<Rightarrow> nat \<Rightarrow> bool" where
  "is_target msg c = (bSender msg \<noteq> Some c)"

definition has_room :: "Hub \<Rightarrow> nat \<Rightarrow> bool" where
  "has_room h c = (length (send (conns h c)) < sendCapacity)"

definition attempt :: "BroadcastMessage \<Rightarrow> Conn \<Rightarrow> Conn" where
  "attempt msg c =
     (if length (send c) < sendCapacity then c\<lparr> send := send c @ [bMessage msg] \<rparr>
      else c\<lparr> sendClosed := True \<rparr>)"

section \<open>Concrete worlds and states\<close>

text \<open>
  A world in which every request is served and a map is visited in insertion order,
  read at two moments: at 100 s, and at 1000 s, with the five-minute inactivity window of
  \<open>main\<close> (in nanoseconds). The room "Standup" exists since 0 s; Ann joined it at 60 s
  and has not been heard of since; one message was sent to the room at 61 s.
\<close>

definition world_ok :: World where
  "world_ok = \<lparr> served = (\<lambda>n. True), clock = (\<lambda>n. 100000000000 + int n), mapOrder = (\<lambda>ks. ks) \<rparr>"

definition world_late :: World where
  "world_late = \<lparr> served = (\<lambda>n. True), clock = (\<lambda>n. 1000000000000 + int n), mapOrder = (\<lambda>ks. ks) \<rparr>"

definition five_minutes :: int where
  "five_minutes = 300000000000"

definition standup :: Room where
  "standup = \<lparr> rID = ''a1b2c3d4'', rName = ''Standup'', rEncryptionKey = ''key'',
               rCreatedAt = 0, rLastActiveAt = 0 \<rparr>"

definition ann :: Participant where
  "ann = \<lparr> pID = ''ann-1'', pRoomID = ''a1b2c3d4'', pUsername = ''Ann'', pAvatar = ''fox'',
           pJoinedAt = 60000000000, pLastActiveAt = 60000000000 \<rparr>"

text \<open>A second room, "Retro", created at 90 s, which nobody has joined yet.\<close>

definition retro :: Room where
  "retro = \<lparr> rID = ''0badcafe'', rName = ''Retro'', rEncryptionKey = ''key2'',
             rCreatedAt = 90000000000, rLastActiveAt = 90000000000 \<rparr>"

definition db_two :: Supabase where
  "db_two = \<lparr> rooms = [standup, retro], participants = [ann], published = [], requests = [] \<rparr>"

definition db_empty :: Supabase where
  "db_empty = \<lparr> rooms = [], participants = [], published = [], requests = [] \<rparr>"

definition db_standup :: Supabase where
  "db_standup = \<lparr> rooms = [standup], participants = [], published = [], requests = [] \<rparr>"

definition db_ann :: Supabase where
  "db_ann = \<lparr> rooms = [standup], participants = [ann], published = [], requests = [] \<rparr>"

definition hello :: Message where
  "hello = \<lparr> mID = ''m-1'', mRoomID = ''a1b2c3d4'', mParticipantID = ''ann-1'',
             mContent = ''3q2+7w=='', mUsername = ''Ann'', mAvatar = ''fox'',
             mTimestamp = 61000000000, mReplyTo = None \<rparr>"

definition server_ann :: Server where
  "server_ann = \<lparr> database = db_ann,
                  messageService = \<lparr> messages = [''a1b2c3d4'' \<mapsto> [hello]] \<rparr> \<rparr>"

text \<open>The entropy of an example \<open>CreateRoom\<close>: the bytes read for the id and for the key.\<close>

definition id_entropy :: "nat \<Rightarrow> 8 word" where
  "id_entropy k = of_nat (17 * k + 200)"

definition key_entropy :: "nat \<Rightarrow> 8 word" where
  "key_entropy k = of_nat k"

text \<open>The room that \<open>CreateRoom\<close> builds from that entropy at 100 s.\<close>

definition created :: Room where
  "created = \<lparr> rID = ''c8d9eafb'', rName = ''Standup'',
               rEncryptionKey = ''AAECAwQFBgcICQoLDA0ODxAREhMUFRYXGBkaGxwdHh8='',
               rCreatedAt = 100000000000, rLastActiveAt = 100000000000 \<rparr>"

text \<open>
  A hub with three clients registered in the room, at addresses 1, 2 and 3; the channel
  of client 3 is full. No message service is attached, and a \<open>range\<close> visits 3, then 1,
  then 2.
\<close>

definition idle_conn :: Conn where
  "idle_conn = \<lparr> send = [], sendClosed = False, cRoomID = ''a1b2c3d4'', cParticipantID = ''p'',
                  cUsername = ''u'', cAvatar = ''fox'' \<rparr>"

definition hub_three :: Hub where
  "hub_three =
     registerClient (registerClient (registerClient
       (NewHub None ((\<lambda>a. idle_conn)(3 := idle_conn\<lparr> send := replicate 256 [] \<rparr>))) 1) 2) 3"

definition env_plain :: HubEnv where
  "env_plain = \<lparr> unmarshalMessage = (\<lambda>raw. None), unmarshalPayload = (\<lambda>raw. None),
                  newUUID = ''m-2'', nowUTC = 62000000000,
                  rangeOrder = (\<lambda>cs. filter (\<lambda>c. c \<in> cs) [3, 1, 2]) \<rparr>"

definition typing_from :: "nat option \<Rightarrow> BroadcastMessage" where
  "typing_from sender = \<lparr> bRoomID = ''a1b2c3d4'', bMessage = [123, 125], bSender = sender \<rparr>"

section \<open>Properties of the message log\<close>

text \<open>
  Claim C7. For every room id and every timestamp \<open>t\<close>, \<open>GetMessages\<close> returns the
  stored messages of that room whose timestamp is strictly after \<open>t\<close>, in the order in
  which they were appended (a \<open>filter\<close> of the buffer keeps its order); when \<open>t\<close> is the
  zero time it returns the whole buffer of the room, in append order.
\<close>

theorem GetMessages_since:
  "GetMessages s roomID t =
     (if t = 0 then roomMessages s roomID
      else filter (\<lambda>msg. t < mTimestamp msg) (roomMessages s roomID))"
  by (simp add: GetMessages_def roomMessages_def IsZero_def After_def split: option.splits)

section \<open>base64Encode is the base 64 of RFC 4648\<close>

lemma alphabet_table: "map rfc4648_char [0..<64] = base64Chars"
  by code_simp

lemma base64Chars_nth: "v < 64 \<Longrightarrow> base64Chars ! v = rfc4648_char v"
  using nth_map [of v "[0..<64]" rfc4648_char] by (simp add: alphabet_table)

lemma drop_three:
  assumes "i + 3 \<le> length data"
  shows "drop i data = data ! i # data ! (i + 1) # data ! (i + 2) # drop (i + 3) data"
proof -
  have "drop i data = data ! i # drop (Suc i) data"
    by (rule Cons_nth_drop_Suc [symmetric]) (use assms in simp)
  also have "drop (Suc i) data = data ! (Suc i) # drop (Suc (Suc i)) data"
    by (rule Cons_nth_drop_Suc [symmetric]) (use assms in simp)
  also have "drop (Suc (Suc i)) data = data ! (Suc (Suc i)) # drop (Suc (Suc (Suc i))) data"
    by (rule Cons_nth_drop_Suc [symmetric]) (use assms in simp)
  finally show ?thesis by (simp add: numeral_3_eq_3)
qed

lemma drop_two:
  assumes "i + 2 = length data"
  shows "drop i data = [data ! i, data ! (i + 1)]"
proof -
  have "drop i data = data ! i # drop (Suc i) data"
    by (rule Cons_nth_drop_Suc [symmetric]) (use assms in simp)
  also have "drop (Suc i) data = data ! (Suc i) # drop (Suc (Suc i)) data"
    by (rule Cons_nth_drop_Suc [symmetric]) (use assms in simp)
  also have "drop (Suc (Suc i)) data = []"
    using assms by simp
  finally show ?thesis by simp
qed

lemma drop_one:
  assumes "i + 1 = length data"
  shows "drop i data = [data ! i]"
proof -
  have "drop i data = data ! i # drop (Suc i) data"
    by (rule Cons_nth_drop_Suc [symmetric]) (use assms in simp)
  also have "drop (Suc i) data = []"
    using assms by simp
  finally show ?thesis .
qed

lemma base64Encode_loop_groups:
  "base64Encode_loop data i result = result @ encode_groups (drop i data)"
proof (induction data i result rule: base64Encode_loop.induct)
  case (1 data i result)
  show ?case
  proof (cases "i < length data")
    case False
    then show ?thesis by (subst base64Encode_loop.simps) simp
  next
    case True
    consider (three) "i + 3 \<le> length data" | (two) "i + 2 = length data" | (one) "i + 1 = length data"
      using True by linarith
    then show ?thesis
    proof cases
      case three
      then have r: "length data - i \<ge> 3" by simp
      define b where "b = quantum3 (data ! i) (data ! (i + 1)) (data ! (i + 2))"
      define q where "q = [sextet_char b 18, sextet_char b 12, sextet_char b 6, sextet_char b 0]"
      have "base64Encode_loop data i result = base64Encode_loop data (i + 3) (result @ q)"
        by (subst base64Encode_loop.simps)
          (simp add: True r Let_def q_def b_def sextet_char_def quantum3_def)
      also have "\<dots> = (result @ q) @ encode_groups (drop (i + 3) data)"
        using "1.IH"(1) [OF True refl r refl]
        by (simp add: q_def b_def sextet_char_def quantum3_def)
      also have "\<dots> = result @ encode_groups (drop i data)"
        by (subst drop_three [OF three]) (simp add: q_def b_def)
      finally show ?thesis .
    next
      case two
      then have r: "\<not> length data - i \<ge> 3" "length data - i = 2" by simp_all
      define b where "b = quantum2 (data ! i) (data ! (i + 1))"
      define q where "q = [sextet_char b 18, sextet_char b 12, sextet_char b 6, CHR ''='']"
      have "base64Encode_loop data i result = base64Encode_loop data (i + 3) (result @ q)"
        by (subst base64Encode_loop.simps)
          (simp add: True r Let_def q_def b_def sextet_char_def quantum2_def)
      also have "\<dots> = (result @ q) @ encode_groups (drop (i + 3) data)"
        using "1.IH"(2) [OF True refl r refl]
        by (simp add: q_def b_def sextet_char_def quantum2_def)
      also have "\<dots> = result @ encode_groups (drop i data)"
        using two by (subst drop_two [OF two]) (simp add: q_def b_def)
      finally show ?thesis .
    next
      case one
      then have r: "\<not> length data - i \<ge> 3" "length data - i \<noteq> 2" by simp_all
      define b where "b = quantum1 (data ! i)"
      define q where "q = [sextet_char b 18, sextet_char b 12, CHR ''='', CHR ''='']"
      have "base64Encode_loop data i result = base64Encode_loop data (i + 3) (result @ q)"
        by (subst base64Encode_loop.simps)
          (simp add: True r Let_def q_def b_def sextet_char_def quantum1_def)
      also have "\<dots> = (result @ q) @ encode_groups (drop (i + 3) data)"
        using "1.IH"(3) [OF True refl r refl]
        by (simp add: q_def b_def sextet_char_def quantum1_def)
      also have "\<dots> = result @ encode_groups (drop i data)"
        using one by (subst drop_one [OF one]) (simp add: q_def b_def)
      finally show ?thesis .
    qed
  qed
qed


lemma bits_val_take_bit:
  "bits_val (map (bit n) (rev [0..<k])) = take_bit k (n::nat)"
  by (induction k) (simp_all add: take_bit_Suc_from_most)

lemma unat_sextet:
  "unat ((w :: 32 word) AND 0x3F) = bits_val (map (bit w) [5, 4, 3, 2, 1, 0])"
proof -
  have r: "rev [0..<6] = [5, 4, 3, 2, 1, 0::nat]" by code_simp
  have m: "(w :: 32 word) AND 0x3F = take_bit 6 w"
    by (simp add: take_bit_eq_mask mask_eq_exp_minus_1)
  have "unat (w AND 0x3F) = take_bit 6 (unat w)"
    by (simp add: m unsigned_take_bit_eq)
  also have "\<dots> = bits_val (map (bit (unat w)) (rev [0..<6]))"
    by (simp only: bits_val_take_bit)
  also have "\<dots> = bits_val (map (bit w) [5, 4, 3, 2, 1, 0])"
    unfolding r by (simp add: bit_unsigned_iff)
  finally show ?thesis .
qed

lemma bits_val_bound: "bits_val bs < 2 ^ length bs"
  by (induction bs) (auto simp: of_bool_def)

lemma sextet_char_rfc:
  "sextet_char b k = rfc4648_char (bits_val (map (bit (drop_bit k b)) [5, 4, 3, 2, 1, 0]))"
proof -
  have "bits_val (map (bit (drop_bit k b)) [5, 4, 3, 2, 1, 0]) < 2 ^ 6"
    using bits_val_bound [of "map (bit (drop_bit k b)) [5, 4, 3, 2, 1, 0]"] by simp
  then show ?thesis
    by (simp add: sextet_char_def unat_sextet base64Chars_nth)
qed

lemma sextets_append:
  assumes "length g = 6"
  shows "sextets (g @ bs) = g # sextets bs"
proof -
  obtain a as where g: "g = a # as" using assms by (cases g) auto
  show ?thesis using assms unfolding g by simp
qed

lemma bit_byte_high: "8 \<le> n \<Longrightarrow> bit (w :: 8 word) n = False"
  using bit_imp_le_length [of w n] by auto

lemma quantum3_bits:
  "byte_bits x @ byte_bits y @ byte_bits z =
     map (bit (drop_bit 18 (quantum3 x y z))) [5, 4, 3, 2, 1, 0] @
     map (bit (drop_bit 12 (quantum3 x y z))) [5, 4, 3, 2, 1, 0] @
     map (bit (drop_bit 6 (quantum3 x y z))) [5, 4, 3, 2, 1, 0] @
     map (bit (drop_bit 0 (quantum3 x y z))) [5, 4, 3, 2, 1, 0]"
  by (simp add: byte_bits_def quantum3_def bit_simps bit_byte_high)


lemma quantum2_bits:
  "byte_bits x @ byte_bits y @ [False, False] =
     map (bit (drop_bit 18 (quantum2 x y))) [5, 4, 3, 2, 1, 0] @
     map (bit (drop_bit 12 (quantum2 x y))) [5, 4, 3, 2, 1, 0] @
     map (bit (drop_bit 6 (quantum2 x y))) [5, 4, 3, 2, 1, 0]"
  by (simp add: byte_bits_def quantum2_def bit_simps bit_byte_high)

lemma quantum1_bits:
  "byte_bits x @ [False, False, False, False] =
     map (bit (drop_bit 18 (quantum1 x))) [5, 4, 3, 2, 1, 0] @
     map (bit (drop_bit 12 (quantum1 x))) [5, 4, 3, 2, 1, 0]"
  by (simp add: byte_bits_def quantum1_def bit_simps bit_byte_high)

lemma sextets_short:
  assumes "0 < length bs" "length bs < 6"
  shows "sextets bs = [bs @ replicate (6 - length bs) False]"
  using assms by (cases bs) auto

lemma sextet_length: "length (map (bit (w :: 32 word)) [5, 4, 3, 2, 1, 0::nat]) = 6"
  by simp

lemmas sextets_step = sextets_append [OF sextet_length]

lemma rfc4648_chars_three:
  "rfc4648_chars (x # y # z # rest) =
     [sextet_char (quantum3 x y z) 18, sextet_char (quantum3 x y z) 12,
      sextet_char (quantum3 x y z) 6, sextet_char (quantum3 x y z) 0] @ rfc4648_chars rest"
proof -
  let ?b = "quantum3 x y z"
  let ?g = "\<lambda>k. map (bit (drop_bit k ?b)) [5, 4, 3, 2, 1, 0]"
  let ?R = "concat (map byte_bits rest)"
  have "concat (map byte_bits (x # y # z # rest)) = (byte_bits x @ byte_bits y @ byte_bits z) @ ?R"
    by simp
  also have "\<dots> = ?g 18 @ ?g 12 @ ?g 6 @ ?g 0 @ ?R"
    by (simp only: quantum3_bits append_assoc)
  finally have "sextets (concat (map byte_bits (x # y # z # rest))) =
      sextets (?g 18 @ ?g 12 @ ?g 6 @ ?g 0 @ ?R)"
    by (rule arg_cong)
  also have "\<dots> = ?g 18 # ?g 12 # ?g 6 # ?g 0 # sextets ?R"
    by (simp only: sextets_step)
  finally show ?thesis
    by (simp add: rfc4648_chars_def sextet_char_rfc)
qed

lemma replicate_small:
  "replicate 1 c = [c]" "replicate 2 c = [c, c]" "replicate 4 c = [c, c, c, c]"
  by (simp_all add: numeral_eq_Suc)

lemma rfc4648_chars_two:
  "rfc4648_chars [x, y] =
     [sextet_char (quantum2 x y) 18, sextet_char (quantum2 x y) 12, sextet_char (quantum2 x y) 6]"
proof -
  let ?b = "quantum2 x y"
  let ?g = "\<lambda>k. map (bit (drop_bit k ?b)) [5, 4, 3, 2, 1, 0]"
  let ?tail = "drop 12 (byte_bits x @ byte_bits y)"
  have split: "byte_bits x @ byte_bits y = ?g 18 @ ?g 12 @ ?tail"
    using quantum2_bits [of x y] by (simp add: byte_bits_def replicate_small)
  have tail: "?tail @ replicate (6 - length ?tail) False = ?g 6"
    using quantum2_bits [of x y] by (simp add: byte_bits_def replicate_small)
  have "sextets (concat (map byte_bits [x, y])) = sextets (?g 18 @ ?g 12 @ ?tail)"
    using split by simp
  also have "\<dots> = ?g 18 # ?g 12 # sextets ?tail"
    by (simp only: sextets_step)
  also have "sextets ?tail = [?g 6]"
    using tail by (subst sextets_short) (simp_all add: byte_bits_def)
  finally show ?thesis
    by (simp add: rfc4648_chars_def sextet_char_rfc)
qed

lemma rfc4648_chars_one:
  "rfc4648_chars [x] = [sextet_char (quantum1 x) 18, sextet_char (quantum1 x) 12]"
proof -
  let ?b = "quantum1 x"
  let ?g = "\<lambda>k. map (bit (drop_bit k ?b)) [5, 4, 3, 2, 1, 0]"
  let ?tail = "drop 6 (byte_bits x)"
  have split: "byte_bits x = ?g 18 @ ?tail"
    using quantum1_bits [of x] by (simp add: byte_bits_def replicate_small)
  have tail: "?tail @ replicate (6 - length ?tail) False = ?g 12"
    using quantum1_bits [of x] by (simp add: byte_bits_def replicate_small)
  have "sextets (concat (map byte_bits [x])) = sextets (?g 18 @ ?tail)"
    using split by simp
  also have "\<dots> = ?g 18 # sextets ?tail"
    by (simp only: sextets_step)
  also have "sextets ?tail = [?g 12]"
    using tail by (subst sextets_short) (simp_all add: byte_bits_def)
  finally show ?thesis
    by (simp add: rfc4648_chars_def sextet_char_rfc)
qed

lemma rfc4648_encode_chars:
  "rfc4648_encode data =
     rfc4648_chars data @ replicate ((4 - length (rfc4648_chars data) mod 4) mod 4) CHR ''=''"
  by (simp add: rfc4648_encode_def rfc4648_chars_def Let_def)

lemma encode_groups_rfc4648: "encode_groups data = rfc4648_encode data"
proof (induction data rule: encode_groups.induct)
  case (1 x y z rest)
  then show ?case
    by (simp add: rfc4648_encode_chars rfc4648_chars_three)
next
  case (2 x y)
  show ?case by (simp add: rfc4648_encode_chars rfc4648_chars_two replicate_small)
next
  case (3 x)
  show ?case by (simp add: rfc4648_encode_chars rfc4648_chars_one replicate_small)
next
  case 4
  show ?case by (simp add: rfc4648_encode_chars rfc4648_chars_def)
qed

subsection \<open>Decoding what was encoded\<close>

lemma of_char_rfc4648_char:
  "v < 64 \<Longrightarrow> (of_char (rfc4648_char v) :: nat) =
     (if v < 26 then 65 + v else if v < 52 then 71 + v else if v < 62 then v - 4
      else if v = 62 then 43 else 47)"
  by (simp add: rfc4648_char_def of_char_of)

lemma rfc4648_char_not_pad: "v < 64 \<Longrightarrow> rfc4648_char v \<noteq> CHR ''=''"
proof
  assume v: "v < 64" and "rfc4648_char v = CHR ''=''"
  then have "(of_char (rfc4648_char v) :: nat) = 61" by simp
  then show False using of_char_rfc4648_char [OF v] by (auto split: if_splits)
qed

lemma rfc4648_char_not_sign:
  "v < 62 \<Longrightarrow> rfc4648_char v \<noteq> CHR ''+'' \<and> rfc4648_char v \<noteq> CHR ''/''"
proof -
  assume v: "v < 62"
  then have "(of_char (rfc4648_char v) :: nat) \<noteq> 43 \<and> (of_char (rfc4648_char v) :: nat) \<noteq> 47"
    using of_char_rfc4648_char [of v] by (auto split: if_splits)
  then show ?thesis by auto
qed

lemma rfc4648_value_char: "v < 64 \<Longrightarrow> rfc4648_value (rfc4648_char v) = Some v"
proof -
  assume v: "v < 64"
  consider "v < 62" | "v = 62" | "v = 63" using v by linarith
  then show ?thesis
  proof cases
    case 1
    then show ?thesis
      using of_char_rfc4648_char [OF v] rfc4648_char_not_sign [OF 1]
      by (auto simp: rfc4648_value_def Let_def split: if_splits)
  next
    case 2
    then show ?thesis by (simp add: rfc4648_value_def rfc4648_char_def)
  next
    case 3
    then show ?thesis by (simp add: rfc4648_value_def rfc4648_char_def)
  qed
qed

lemma values_of_chars:
  "\<forall>v \<in> set vs. v < 64 \<Longrightarrow> values_of (map rfc4648_char vs) = Some vs"
  by (induction vs) (simp_all add: rfc4648_value_char)

lemma takeWhile_pad:
  "\<forall>v \<in> set vs. v < 64 \<Longrightarrow>
   takeWhile (\<lambda>c. c \<noteq> CHR ''='') (map rfc4648_char vs @ replicate k CHR ''='') = map rfc4648_char vs"
  by (induction vs) (simp_all add: rfc4648_char_not_pad takeWhile_replicate)

lemma bits_val_inj:
  "length g = length g' \<Longrightarrow> bits_val g = bits_val g' \<Longrightarrow> g = g'"
proof (induction g arbitrary: g')
  case Nil
  then show ?case by simp
next
  case (Cons b bs)
  then obtain c cs where g': "g' = c # cs" and l: "length bs = length cs"
    by (cases g') auto
  have x: "bits_val bs < 2 ^ length bs" and y: "bits_val cs < 2 ^ length bs"
    using bits_val_bound [of bs] bits_val_bound [of cs] l by simp_all
  have e: "of_bool b * 2 ^ length bs + bits_val bs = of_bool c * 2 ^ length bs + bits_val cs"
    using Cons.prems(2) l by (simp add: g')
  have "b = c \<and> bits_val bs = bits_val cs"
    using e x y by (cases b; cases c) auto
  then show ?case using Cons.IH [OF l] by (simp add: g')
qed

lemma sextet_bits_val:
  assumes "length g = 6"
  shows "sextet_bits (bits_val g) = g"
proof -
  have r: "rev [0..<6] = [5, 4, 3, 2, 1, 0::nat]" by code_simp
  have "bits_val g < 2 ^ 6" using bits_val_bound [of g] assms by simp
  then have "take_bit 6 (bits_val g) = bits_val g" by (simp add: take_bit_nat_eq_self)
  then have "bits_val (map (bit (bits_val g)) [5, 4, 3, 2, 1, 0]) = bits_val g"
    using bits_val_take_bit [of "bits_val g" 6] by (simp only: r)
  then show ?thesis
    using bits_val_inj [of "map (bit (bits_val g)) [5, 4, 3, 2, 1, 0]" g] assms
    by (simp add: sextet_bits_def)
qed

lemma sextets_lengths: "\<forall>g \<in> set (sextets bs). length g = 6"
proof (induction bs rule: sextets.induct)
  case 1
  show ?case by simp
next
  case (2 b bs)
  show ?case
  proof (cases "length (b # bs) < 6")
    case True
    then have "sextets (b # bs) = [(b # bs) @ replicate (6 - length (b # bs)) False]"
      by (simp only: sextets.simps if_True)
    then show ?thesis using True by simp
  next
    case False
    then have step: "sextets (b # bs) = take 6 (b # bs) # sextets (drop 6 (b # bs))"
      by (simp only: sextets.simps if_False)
    have "length (take 6 (b # bs)) = 6" using False by (simp only: length_take)
    then show ?thesis using "2.IH" [OF False] by (simp only: step) simp
  qed
qed

lemma concat_sextets:
  "concat (sextets bs) = bs @ replicate ((6 - length bs mod 6) mod 6) False"
proof (induction bs rule: sextets.induct)
  case 1
  show ?case by simp
next
  case (2 b bs)
  show ?case
  proof (cases "length (b # bs) < 6")
    case True
    then show ?thesis by simp
  next
    case False
    then have ge: "6 \<le> length (b # bs)" by simp
    have m: "(length (b # bs) - 6) mod 6 = length (b # bs) mod 6"
      using ge by (simp add: le_mod_geq)
    have td: "take 6 (b # bs) @ drop 6 (b # bs) = b # bs"
      by (rule append_take_drop_id)
    have len: "length (drop 6 (b # bs)) = length (b # bs) - 6"
      by (rule length_drop)
    have step: "sextets (b # bs) = take 6 (b # bs) # sextets (drop 6 (b # bs))"
      using False by (simp only: sextets.simps if_False)
    have "concat (sextets (b # bs)) = take 6 (b # bs) @ concat (sextets (drop 6 (b # bs)))"
      by (simp only: step concat.simps)
    also have "\<dots> = take 6 (b # bs) @ (drop 6 (b # bs) @
        replicate ((6 - length (drop 6 (b # bs)) mod 6) mod 6) False)"
      using "2.IH" [OF False] by (simp only:)
    also have "\<dots> = (take 6 (b # bs) @ drop 6 (b # bs)) @
        replicate ((6 - length (b # bs) mod 6) mod 6) False"
      by (simp only: append_assoc len m)
    also have "\<dots> = (b # bs) @ replicate ((6 - length (b # bs) mod 6) mod 6) False"
      by (simp only: td)
    finally show ?thesis .
  qed
qed

lemma byte_bits_val: "of_nat (bits_val (byte_bits x)) = x"
proof -
  have r: "rev [0..<8] = [7, 6, 5, 4, 3, 2, 1, 0::nat]" by code_simp
  have "bits_val (byte_bits x) = bits_val (map (bit (unat x)) (rev [0..<8]))"
    unfolding r by (simp add: byte_bits_def bit_unsigned_iff)
  also have "\<dots> = take_bit 8 (unat x)" by (rule bits_val_take_bit)
  also have "\<dots> = unat x" by (simp add: unsigned_take_bit_eq [symmetric] take_bit_word_eq_self)
  finally show ?thesis by simp
qed

lemma octets_bytes:
  "length tail < 8 \<Longrightarrow> octets (concat (map byte_bits data) @ tail) = data"
proof (induction data)
  case Nil
  then show ?case by (simp add: octets.simps)
next
  case (Cons x xs)
  have l: "length (byte_bits x) = 8" by (simp add: byte_bits_def)
  have "octets (concat (map byte_bits (x # xs)) @ tail) =
        octets (byte_bits x @ (concat (map byte_bits xs) @ tail))"
    by simp
  also have "\<dots> = of_nat (bits_val (byte_bits x)) # octets (concat (map byte_bits xs) @ tail)"
    by (subst octets.simps) (simp add: l)
  finally show ?case using Cons by (simp add: byte_bits_val)
qed

lemma rfc4648_decode_encode: "rfc4648_decode (rfc4648_encode data) = Some data"
proof -
  let ?bits = "concat (map byte_bits data)"
  let ?vs = "map bits_val (sextets ?bits)"
  have small: "\<forall>v \<in> set ?vs. v < 64"
  proof
    fix v assume "v \<in> set ?vs"
    then obtain g where "g \<in> set (sextets ?bits)" "v = bits_val g" by auto
    then show "v < 64"
      using sextets_lengths [of ?bits] bits_val_bound [of g] by auto
  qed
  have enc: "rfc4648_encode data =
      map rfc4648_char ?vs @ replicate ((4 - length ?vs mod 4) mod 4) CHR ''=''"
    by (simp add: rfc4648_encode_def Let_def comp_def)
  have undo: "map sextet_bits ?vs = sextets ?bits"
    using sextets_lengths [of ?bits] by (simp add: map_idI sextet_bits_val)
  have "rfc4648_decode (rfc4648_encode data) = Some (octets (concat (map sextet_bits ?vs)))"
    by (simp only: rfc4648_decode_def enc takeWhile_pad [OF small] values_of_chars [OF small]
        option.case)
  also have "concat (map sextet_bits ?vs) = ?bits @ replicate ((6 - length ?bits mod 6) mod 6) False"
    by (simp only: undo concat_sextets)
  also have "octets (?bits @ replicate ((6 - length ?bits mod 6) mod 6) False) = data"
    by (rule octets_bytes) simp
  finally show ?thesis .
qed

lemma rfc4648_test_vectors:
  "map rfc4648_encode [[], [102], [102,111], [102,111,111], [102,111,111,98], [102,111,111,98,97], [102,111,111,98,97,114]]
   = ['''', ''Zg=='', ''Zm8='', ''Zm9v'', ''Zm9vYg=='', ''Zm9vYmE='', ''Zm9vYmFy'']"
  by (simp add: encode_groups_rfc4648 [symmetric] sextet_char_def quantum3_def quantum2_def
      quantum1_def base64Chars_def)

text \<open>
  Claim C10. For every byte slice, \<open>base64Encode\<close> returns the base 64 encoding of
  RFC 4648 with \<open>=\<close> padding: the string the RFC's definition gives for the same bytes,
  character for character; and the RFC's decoding of that string gives back the bytes,
  so the 32 bytes of a room key are recovered from its text.
\<close>

theorem base64Encode_is_rfc4648:
  "base64Encode data = rfc4648_encode data \<and> rfc4648_decode (base64Encode data) = Some data"
  by (simp add: base64Encode_def base64Encode_loop_groups encode_groups_rfc4648
      rfc4648_decode_encode)

section \<open>The Supabase model when every request is served\<close>

lemma doRequest_served:
  assumes "\<And>n. served w n"
  shows "doRequest w req accepted effect db =
           (accepted, (if accepted then effect db else db)\<lparr> requests := requests db @ [(req, accepted)] \<rparr>)"
  using assms by (simp add: doRequest_def Let_def)

lemma LeaveRoom_deletes_empty_room:
  assumes served: "\<And>n. served w n"
    and recount: "filter (\<lambda>q. pRoomID q = roomID) (filter (\<lambda>q. pID q \<noteq> participantID) (participants db)) = []"
  shows "fst (LeaveRoom w roomID participantID db) = None \<and>
         roomID \<notin> set (map rID (rooms (snd (LeaveRoom w roomID participantID db))))"
  using recount
  by (auto simp: LeaveRoom_def db_GetParticipant_def db_RemoveParticipant_def
      db_BroadcastParticipantEvent_def db_CountParticipants_def db_GetParticipants_def
      db_DeleteRoom_def doRequest_served [OF served] Let_def
      split: list.splits prod.splits option.splits sum.splits if_splits)


lemma db_RemoveParticipant_served:
  assumes "\<And>n. served w n"
  shows "db_RemoveParticipant w ident db =
           (None, db\<lparr> participants := filter (\<lambda>p. pID p \<noteq> ident) (participants db),
                       requests := requests db @ [(ReqRemoveParticipant ident, True)] \<rparr>)"
  by (simp add: db_RemoveParticipant_def doRequest_served [OF assms])

lemma db_BroadcastParticipantEvent_tables:
  "rooms (snd (db_BroadcastParticipantEvent w roomID action p db)) = rooms db"
  "participants (snd (db_BroadcastParticipantEvent w roomID action p db)) = participants db"
  by (simp_all add: db_BroadcastParticipantEvent_def doRequest_def Let_def)

lemma removeInactive_served:
  assumes "\<And>n. served w n"
  shows "rooms (snd (removeInactive w ps rs db)) = rooms db \<and>
         participants (snd (removeInactive w ps rs db)) =
           filter (\<lambda>q. pID q \<notin> pID ` set ps) (participants db) \<and>
         set (fst (removeInactive w ps rs db)) = set rs \<union> pRoomID ` set ps"
proof (induction ps arbitrary: rs db)
  case Nil
  show ?case by simp
next
  case (Cons p ps)
  show ?case
    by (simp add: db_RemoveParticipant_served [OF assms] Let_def Cons.IH
        db_BroadcastParticipantEvent_tables conj_commute) auto
qed

lemma db_CountParticipants_tables:
  "rooms (snd (db_CountParticipants w roomID db)) = rooms db"
  "participants (snd (db_CountParticipants w roomID db)) = participants db"
  by (simp_all add: db_CountParticipants_def db_GetParticipants_def doRequest_def Let_def
      split: prod.splits sum.splits)

lemma db_CountParticipants_served:
  assumes "\<And>n. served w n"
  shows "fst (db_CountParticipants w roomID db) =
           Inr (length (filter (\<lambda>p. pRoomID p = roomID) (participants db)))"
  by (simp add: db_CountParticipants_def db_GetParticipants_def doRequest_served [OF assms])

lemma db_DeleteRoom_shrinks:
  "set (rooms (snd (db_DeleteRoom w ident db))) \<subseteq> set (rooms db)"
  "set (participants (snd (db_DeleteRoom w ident db))) \<subseteq> set (participants db)"
  by (auto simp: db_DeleteRoom_def doRequest_def Let_def)

lemma db_DeleteRoom_served:
  assumes "\<And>n. served w n"
  shows "ident \<notin> rID ` set (rooms (snd (db_DeleteRoom w ident db)))"
  by (auto simp: db_DeleteRoom_def doRequest_served [OF assms])

lemma deleteEmptyRooms_shrinks:
  "set (rooms (deleteEmptyRooms w rs db)) \<subseteq> set (rooms db) \<and>
   set (participants (deleteEmptyRooms w rs db)) \<subseteq> set (participants db)"
proof (induction rs arbitrary: db)
  case Nil
  show ?case by simp
next
  case (Cons r rs)
  obtain res db1 where c: "db_CountParticipants w r db = (res, db1)"
    by (cases "db_CountParticipants w r db")
  have t1: "rooms db1 = rooms db" "participants db1 = participants db"
    using db_CountParticipants_tables [of w r db] c by simp_all
  show ?case
    using Cons.IH [of db1] Cons.IH [of "snd (db_DeleteRoom w r db1)"]
      db_DeleteRoom_shrinks [of w r db1] t1
    by (cases res) (auto simp: c)
qed

lemma deleteEmptyRooms_deletes:
  assumes served: "\<And>n. served w n"
    and "r \<in> set rs"
    and "\<forall>q \<in> set (participants db). pRoomID q \<noteq> r"
  shows "r \<notin> rID ` set (rooms (deleteEmptyRooms w rs db))"
  using assms(2,3)
proof (induction rs arbitrary: db)
  case Nil
  then show ?case by simp
next
  case (Cons x rs)
  obtain res db1 where c: "db_CountParticipants w x db = (res, db1)"
    by (cases "db_CountParticipants w x db")
  have t1: "rooms db1 = rooms db" "participants db1 = participants db"
    using db_CountParticipants_tables [of w x db] c by simp_all
  have res: "res = Inr (length (filter (\<lambda>p. pRoomID p = x) (participants db)))"
    using db_CountParticipants_served [OF served, of x db] c by simp
  let ?db2 = "snd (db_DeleteRoom w x db1)"
  show ?case
  proof (cases "x = r")
    case True
    have "filter (\<lambda>p. pRoomID p = x) (participants db) = []"
      using Cons.prems(2) True by (auto simp: filter_empty_conv)
    then have step: "deleteEmptyRooms w (x # rs) db = deleteEmptyRooms w rs ?db2"
      by (simp add: c res)
    have "r \<notin> rID ` set (rooms ?db2)"
      using db_DeleteRoom_served [OF served, of x db1] True by simp
    then show ?thesis
      using deleteEmptyRooms_shrinks [of w rs ?db2] unfolding step by blast
  next
    case False
    then have mem: "r \<in> set rs" using Cons.prems(1) by simp
    have none1: "\<forall>q \<in> set (participants db1). pRoomID q \<noteq> r"
      using Cons.prems(2) t1 by simp
    have none2: "\<forall>q \<in> set (participants ?db2). pRoomID q \<noteq> r"
      using none1 db_DeleteRoom_shrinks(2) [of w x db1] by blast
    show ?thesis
      using Cons.IH [OF mem none1] Cons.IH [OF mem none2]
      by (simp add: c res)
  qed
qed

lemma deleteRooms_shrinks:
  "set (rooms (deleteRooms w rs db)) \<subseteq> set (rooms db)"
proof (induction rs arbitrary: db)
  case Nil
  show ?case by simp
next
  case (Cons r rs)
  show ?case
    using Cons.IH [of "snd (db_DeleteRoom w (rID r) db)"] db_DeleteRoom_shrinks(1) [of w "rID r" db]
    by auto
qed

lemma cleanupRooms_shrinks:
  "set (rooms (cleanupRooms w threshold db)) \<subseteq> set (rooms db)"
proof -
  obtain res db1 where q: "db_GetInactiveRooms w threshold db = (res, db1)"
    by (cases "db_GetInactiveRooms w threshold db")
  have t: "rooms db1 = rooms db"
    using q by (auto simp: db_GetInactiveRooms_def doRequest_def Let_def split: if_splits)
  show ?thesis
  proof (cases res)
    case (Inl e)
    then show ?thesis by (simp add: cleanupRooms_def q t)
  next
    case (Inr rs)
    then show ?thesis
      using deleteRooms_shrinks [of w rs db1] by (simp add: cleanupRooms_def q t)
  qed
qed

lemma cleanupParticipants_deletes:
  assumes served: "\<And>n. served w n"
    and order: "\<And>ks. set (mapOrder w ks) = set ks"
    and removed: "r \<in> pRoomID ` set (filter (\<lambda>p. pLastActiveAt p < formatRFC3339 threshold) (participants db))"
    and recount: "filter (\<lambda>q. pRoomID q = r)
                    (filter (\<lambda>q. \<not> pLastActiveAt q < formatRFC3339 threshold) (participants db)) = []"
  shows "r \<notin> rID ` set (rooms (cleanupParticipants w threshold db))"
proof -
  let ?ps = "filter (\<lambda>p. pLastActiveAt p < formatRFC3339 threshold) (participants db)"
  let ?db1 = "db\<lparr> requests := requests db @ [(ReqGetInactiveParticipants threshold, True)] \<rparr>"
  have q: "db_GetInactiveParticipants w threshold db = (Inr ?ps, ?db1)"
    by (simp add: db_GetInactiveParticipants_def doRequest_served [OF served])
  have ne: "length ?ps \<noteq> 0" using removed by (auto simp: filter_empty_conv)
  obtain rs db2 where ri: "removeInactive w ?ps [] ?db1 = (rs, db2)"
    by (cases "removeInactive w ?ps [] ?db1")
  have facts: "participants db2 = filter (\<lambda>q. pID q \<notin> pID ` set ?ps) (participants db)"
    "set rs = pRoomID ` set ?ps"
    using removeInactive_served [OF served, of ?ps "[]" ?db1] ri by simp_all
  have mem: "r \<in> set (mapOrder w rs)" using removed facts(2) order by simp
  have none: "\<forall>q \<in> set (participants db2). pRoomID q \<noteq> r"
  proof
    fix q assume "q \<in> set (participants db2)"
    then have "q \<in> set (participants db)" "pID q \<notin> pID ` set ?ps"
      by (simp_all add: facts(1))
    then have "\<not> pLastActiveAt q < formatRFC3339 threshold" by auto
    with \<open>q \<in> set (participants db)\<close> recount show "pRoomID q \<noteq> r"
      by (auto simp: filter_empty_conv)
  qed
  have "cleanupParticipants w threshold db = deleteEmptyRooms w (mapOrder w rs) db2"
    using ne by (simp add: cleanupParticipants_def q ri)
  then show ?thesis
    using deleteEmptyRooms_deletes [OF served mem none] by simp
qed

section \<open>Events published by the services\<close>

lemmas db_defs = db_CreateRoom_def db_GetRoom_def db_UpdateRoomActivity_def db_DeleteRoom_def
  db_AddParticipant_def db_GetParticipants_def db_GetParticipant_def db_RemoveParticipant_def
  db_CountParticipants_def db_GetInactiveRooms_def db_GetInactiveParticipants_def
  db_UpdateParticipantActivity_def db_BroadcastParticipantEvent_def db_BroadcastRoomEvent_def

lemma roomEvents_append [simp]: "roomEvents (xs @ ys) = roomEvents xs @ roomEvents ys"
  by (simp add: roomEvents_def)

lemma roomEvents_participant [simp]: "roomEvents [ParticipantEvent t a i r u v] = []"
  by (simp add: roomEvents_def)

lemma LeaveRoom_roomEvents:
  "roomEvents (published (snd (LeaveRoom w roomID participantID db))) = roomEvents (published db)"
  by (auto simp: LeaveRoom_def db_defs doRequest_def Let_def
      split: list.splits prod.splits option.splits sum.splits if_splits)

lemma CreateRoom_published:
  "published (snd (CreateRoom w e1 e2 name db)) = published db"
  by (auto simp: CreateRoom_def db_defs doRequest_def Let_def
      split: list.splits prod.splits option.splits sum.splits if_splits)

lemma db_RemoveParticipant_published:
  "published (snd (db_RemoveParticipant w ident db)) = published db"
  by (simp add: db_defs doRequest_def Let_def)

lemma db_BroadcastParticipantEvent_roomEvents:
  "roomEvents (published (snd (db_BroadcastParticipantEvent w r a p db))) = roomEvents (published db)"
  by (simp add: db_defs doRequest_def Let_def)

lemma removeInactive_roomEvents:
  "roomEvents (published (snd (removeInactive w ps rs db))) = roomEvents (published db)"
proof (induction ps arbitrary: rs db)
  case Nil
  show ?case by simp
next
  case (Cons p ps)
  obtain res db1 where r: "db_RemoveParticipant w (pID p) db = (res, db1)"
    by (cases "db_RemoveParticipant w (pID p) db")
  have p1: "published db1 = published db"
    using db_RemoveParticipant_published [of w "pID p" db] r by simp
  show ?case
    by (cases res)
       (simp_all add: r Cons.IH p1 Let_def db_BroadcastParticipantEvent_roomEvents)
qed

lemma db_CountParticipants_published:
  "published (snd (db_CountParticipants w r db)) = published db"
  by (simp add: db_defs doRequest_def Let_def split: prod.splits sum.splits)

lemma db_DeleteRoom_published:
  "published (snd (db_DeleteRoom w r db)) = published db"
  by (simp add: db_defs doRequest_def Let_def)

lemma deleteEmptyRooms_published:
  "published (deleteEmptyRooms w rs db) = published db"
proof (induction rs arbitrary: db)
  case Nil
  show ?case by simp
next
  case (Cons r rs)
  obtain res db1 where c: "db_CountParticipants w r db = (res, db1)"
    by (cases "db_CountParticipants w r db")
  have p1: "published db1 = published db"
    using db_CountParticipants_published [of w r db] c by simp
  show ?case
    by (cases res) (simp_all add: c Cons.IH p1 db_DeleteRoom_published)
qed

lemma deleteRooms_published:
  "published (deleteRooms w rs db) = published db"
  by (induction rs arbitrary: db) (simp_all add: db_DeleteRoom_published)

lemma cleanupParticipants_roomEvents:
  "roomEvents (published (cleanupParticipants w threshold db)) = roomEvents (published db)"
proof -
  obtain res db1 where q: "db_GetInactiveParticipants w threshold db = (res, db1)"
    by (cases "db_GetInactiveParticipants w threshold db")
  have p1: "published db1 = published db"
    using q by (auto simp: db_defs doRequest_def Let_def split: if_splits)
  show ?thesis
  proof (cases res)
    case (Inl e)
    then show ?thesis by (simp add: cleanupParticipants_def q p1)
  next
    case (Inr ps)
    obtain rs db2 where ri: "removeInactive w ps [] db1 = (rs, db2)"
      by (cases "removeInactive w ps [] db1")
    have "roomEvents (published db2) = roomEvents (published db1)"
      using removeInactive_roomEvents [of w ps "[]" db1] ri by simp
    then show ?thesis
      by (simp add: cleanupParticipants_def q Inr ri p1 deleteEmptyRooms_published)
  qed
qed

lemma cleanupRooms_published:
  "published (cleanupRooms w threshold db) = published db"
proof -
  obtain res db1 where q: "db_GetInactiveRooms w threshold db = (res, db1)"
    by (cases "db_GetInactiveRooms w threshold db")
  have p1: "published db1 = published db"
    using q by (auto simp: db_defs doRequest_def Let_def split: if_splits)
  show ?thesis
    by (cases res) (simp_all add: cleanupRooms_def q p1 deleteRooms_published)
qed

lemma cleanup_roomEvents:
  "roomEvents (published (cleanup w timeout db)) = roomEvents (published db)"
  by (simp add: cleanup_def Let_def cleanupRooms_published cleanupParticipants_roomEvents)

lemmas eval_defs = LeaveRoom_def JoinRoom_def CreateRoom_def cleanup_def cleanupParticipants_def
  cleanupRooms_def formatRFC3339_def db_defs doRequest_def Let_def
  world_ok_def world_late_def five_minutes_def db_ann_def db_standup_def db_empty_def
  ann_def standup_def


section \<open>An empty room is deleted by the operation that emptied it\<close>

text \<open>
  What holds when every Supabase request is served. \<open>LeaveRoom\<close> deletes the room it is
  called with when, after the delete of the participant, the recount of that room is 0.
  A cleanup sweep deletes room \<open>R\<close> when it removes a participant of \<open>R\<close> and every
  participant of \<open>R\<close> was inactive, whatever order the sweep visits the affected rooms
  in: the sweep recounts the room of each participant it removed.
\<close>

lemma recounted_room_deleted:
  assumes "\<And>n. served w n" and "\<And>ks. set (mapOrder w ks) = set ks"
  shows "(filter (\<lambda>q. pRoomID q = roomID)
            (filter (\<lambda>q. pID q \<noteq> participantID) (participants db)) = [] \<longrightarrow>
          fst (LeaveRoom w roomID participantID db) = None \<and>
          roomID \<notin> rID ` set (rooms (snd (LeaveRoom w roomID participantID db)))) \<and>
         (R \<in> pRoomID ` set (filter (\<lambda>p. pLastActiveAt p <
                 formatRFC3339 (clock w (length (requests db)) - timeout)) (participants db)) \<and>
          filter (\<lambda>q. pRoomID q = R)
            (filter (\<lambda>q. \<not> pLastActiveAt q <
                 formatRFC3339 (clock w (length (requests db)) - timeout)) (participants db)) = [] \<longrightarrow>
          R \<notin> rID ` set (rooms (cleanup w timeout db)))"
proof (intro conjI impI)
  assume a: "filter (\<lambda>q. pRoomID q = roomID)
            (filter (\<lambda>q. pID q \<noteq> participantID) (participants db)) = []"
  show "fst (LeaveRoom w roomID participantID db) = None"
    using LeaveRoom_deletes_empty_room [OF assms(1) a] by simp
  show "roomID \<notin> rID ` set (rooms (snd (LeaveRoom w roomID participantID db)))"
    using LeaveRoom_deletes_empty_room [OF assms(1) a] by simp
next
  let ?t = "clock w (length (requests db)) - timeout"
  assume b: "R \<in> pRoomID ` set (filter (\<lambda>p. pLastActiveAt p < formatRFC3339 ?t) (participants db)) \<and>
          filter (\<lambda>q. pRoomID q = R)
            (filter (\<lambda>q. \<not> pLastActiveAt q < formatRFC3339 ?t) (participants db)) = []"
  have "R \<notin> rID ` set (rooms (cleanupParticipants w ?t db))"
    using cleanupParticipants_deletes [OF assms(1) assms(2)] b by blast
  then show "R \<notin> rID ` set (rooms (cleanup w timeout db))"
    using cleanupRooms_shrinks [of w ?t "cleanupParticipants w ?t db"]
    by (auto simp: cleanup_def Let_def)
qed

lemma recounted_room_deleted_example:
  "fst (LeaveRoom world_ok ''a1b2c3d4'' ''ann-1'' db_ann) = None \<and>
   ''a1b2c3d4'' \<notin> rID ` set (rooms (snd (LeaveRoom world_ok ''a1b2c3d4'' ''ann-1'' db_ann))) \<and>
   ''a1b2c3d4'' \<notin> rID ` set (rooms (cleanup world_late five_minutes db_ann))"
proof -
  have s1: "\<And>n. served world_ok n" and s2: "\<And>n. served world_late n"
    by (simp_all add: world_ok_def world_late_def)
  have o1: "\<And>ks. set (mapOrder world_ok ks) = set ks"
    and o2: "\<And>ks. set (mapOrder world_late ks) = set ks"
    by (simp_all add: world_ok_def world_late_def)
  have h1: "filter (\<lambda>q. pRoomID q = ''a1b2c3d4'')
            (filter (\<lambda>q. pID q \<noteq> ''ann-1'') (participants db_ann)) = []"
    by (simp add: db_ann_def ann_def)
  have h2: "''a1b2c3d4'' \<in> pRoomID ` set (filter (\<lambda>p. pLastActiveAt p <
                 formatRFC3339 (clock world_late (length (requests db_ann)) - five_minutes))
                 (participants db_ann)) \<and>
          filter (\<lambda>q. pRoomID q = ''a1b2c3d4'')
            (filter (\<lambda>q. \<not> pLastActiveAt q <
                 formatRFC3339 (clock world_late (length (requests db_ann)) - five_minutes))
                 (participants db_ann)) = []"
    by (simp add: db_ann_def ann_def world_late_def five_minutes_def formatRFC3339_def)
  show ?thesis
    using recounted_room_deleted [OF s1 o1, of "''a1b2c3d4''" "''ann-1''" db_ann "''a1b2c3d4''" five_minutes]
      recounted_room_deleted [OF s2 o2, of "''a1b2c3d4''" "''ann-1''" db_ann "''a1b2c3d4''" five_minutes]
      h1 h2
    by blast
qed

text \<open>
  Claim C1 has every room deleted by the operation that removed its last participant.
  \<open>LeaveRoom\<close> does not do that when the participant is not in the room the call names:
  it fetches the participant but never looks at the participant's room, and recounts and
  deletes the room id of the request. Ann is the only participant of "Standup"
  (a1b2c3d4); a leave for Ann sent to "Retro" (0badcafe), every request served, returns
  no error, removes Ann, recounts "Retro" (0 participants) and deletes "Retro". "Standup"
  has lost its last participant and is still in the store when the call returns, and the
  leave event went to the topic of "Retro".
\<close>

theorem LeaveRoom_leaves_emptied_room:
  "fst (LeaveRoom world_ok ''0badcafe'' ''ann-1'' db_two) = None \<and>
   participants (snd (LeaveRoom world_ok ''0badcafe'' ''ann-1'' db_two)) = [] \<and>
   rooms (snd (LeaveRoom world_ok ''0badcafe'' ''ann-1'' db_two)) = [standup] \<and>
   published (snd (LeaveRoom world_ok ''0badcafe'' ''ann-1'' db_two)) =
     [ParticipantEvent ''room:0badcafe'' ''leave'' ''ann-1'' ''a1b2c3d4'' ''Ann'' ''fox''] \<and>
   issued db_two (snd (LeaveRoom world_ok ''0badcafe'' ''ann-1'' db_two)) =
     [(ReqGetParticipant ''ann-1'', True), (ReqRemoveParticipant ''ann-1'', True),
      (ReqBroadcastParticipant ''0badcafe'' ''leave'' ann, True),
      (ReqGetParticipants ''0badcafe'', True), (ReqDeleteRoom ''0badcafe'', True)] \<and>
   urlSafe ''0badcafe'' \<and> urlSafe ''ann-1'' \<and> urlSafe ''a1b2c3d4''"
  by (simp add: eval_defs db_two_def retro_def issued_def urlSafe_def)

section \<open>Persist, then broadcast\<close>

lemma committed_mono:
  "set e1 \<subseteq> set e2 \<Longrightarrow> committed e1 a p \<Longrightarrow> committed e2 a p"
  by (auto simp: committed_def split: if_splits)

lemma ptb_from_mono:
  "set e1 \<subseteq> set e2 \<Longrightarrow> ptb_from e1 tr \<Longrightarrow> ptb_from e2 tr"
proof (induction tr arbitrary: e1 e2)
  case Nil
  show ?case by simp
next
  case (Cons r tr)
  have sub: "set (e1 @ [r]) \<subseteq> set (e2 @ [r])" using Cons.prems(1) by auto
  show ?case
    using Cons.prems Cons.IH [OF sub] committed_mono [OF Cons.prems(1)]
    by (cases "fst r") auto
qed

lemma ptb_from_append:
  "ptb_from e (t1 @ t2) = (ptb_from e t1 \<and> ptb_from (e @ t1) t2)"
  by (induction t1 arbitrary: e) auto

lemma self_persisting_refl: "self_persisting db db"
  by (simp add: self_persisting_def issued_def)

lemma self_persisting_trans:
  assumes "self_persisting a b" and "self_persisting b c"
  shows "self_persisting a c"
proof -
  have ab: "requests b = requests a @ issued a b" and bc: "requests c = requests b @ issued b c"
    using assms by (simp_all add: self_persisting_def)
  have ac: "issued a c = issued a b @ issued b c"
    using ab bc by (metis append.assoc append_eq_conv_conj issued_def)
  have "ptb_from e (issued a c)" for e
    using assms by (simp add: ac ptb_from_append self_persisting_def)
  then show ?thesis
    using ab bc ac by (simp add: self_persisting_def)
qed

lemma self_persisting_single:
  assumes "\<exists>ok. requests db' = requests db @ [(req, ok)]"
    and "case req of ReqBroadcastParticipant roomID action p \<Rightarrow> False | _ \<Rightarrow> True"
  shows "self_persisting db db'"
  using assms by (cases req) (auto simp: self_persisting_def issued_def)

lemma self_persisting_RemoveParticipant:
  "self_persisting db (snd (db_RemoveParticipant w ident db))"
  by (rule self_persisting_single [where req = "ReqRemoveParticipant ident"])
     (auto simp: db_defs doRequest_def Let_def)

lemma self_persisting_CountParticipants:
  "self_persisting db (snd (db_CountParticipants w r db))"
  by (rule self_persisting_single [where req = "ReqGetParticipants r"])
     (auto simp: db_defs doRequest_def Let_def split: prod.splits sum.splits)

lemma self_persisting_DeleteRoom:
  "self_persisting db (snd (db_DeleteRoom w r db))"
  by (rule self_persisting_single [where req = "ReqDeleteRoom r"])
     (auto simp: db_defs doRequest_def Let_def)

lemma self_persisting_GetInactiveRooms:
  "self_persisting db (snd (db_GetInactiveRooms w t db))"
  by (rule self_persisting_single [where req = "ReqGetInactiveRooms t"])
     (auto simp: db_defs doRequest_def Let_def)

lemma self_persisting_GetInactiveParticipants:
  "self_persisting db (snd (db_GetInactiveParticipants w t db))"
  by (rule self_persisting_single [where req = "ReqGetInactiveParticipants t"])
     (auto simp: db_defs doRequest_def Let_def)

lemma self_persisting_remove_then_leave:
  assumes "db_RemoveParticipant w (pID p) db = (None, db1)"
  shows "self_persisting db (snd (db_BroadcastParticipantEvent w roomID ''leave'' p db1))"
proof -
  have r1: "requests db1 = requests db @ [(ReqRemoveParticipant (pID p), True)]"
    using assms by (auto simp: db_defs doRequest_def Let_def split: if_splits)
  have "\<exists>ok. requests (snd (db_BroadcastParticipantEvent w roomID ''leave'' p db1)) =
          requests db @ [(ReqRemoveParticipant (pID p), True),
                         (ReqBroadcastParticipant roomID ''leave'' p, ok)]"
    by (simp add: db_defs doRequest_def Let_def r1)
  then show ?thesis
    by (auto simp: self_persisting_def issued_def committed_def)
qed

lemma self_persisting_removeInactive:
  "self_persisting db (snd (removeInactive w ps rs db))"
proof (induction ps arbitrary: rs db)
  case Nil
  show ?case by (simp add: self_persisting_refl)
next
  case (Cons p ps)
  obtain res db1 where r: "db_RemoveParticipant w (pID p) db = (res, db1)"
    by (cases "db_RemoveParticipant w (pID p) db")
  show ?case
  proof (cases res)
    case None
    let ?db2 = "snd (db_BroadcastParticipantEvent w (pRoomID p) ''leave'' p db1)"
    have "self_persisting db ?db2"
      using self_persisting_remove_then_leave r None by simp
    then show ?thesis
      using self_persisting_trans Cons.IH [where db = ?db2] by (auto simp: r None Let_def)
  next
    case (Some e)
    have "self_persisting db db1"
      using self_persisting_RemoveParticipant [of db w "pID p"] r by simp
    then show ?thesis
      using self_persisting_trans Cons.IH [where db = db1 and rs = rs] by (auto simp: r Some)
  qed
qed

lemma self_persisting_deleteEmptyRooms:
  "self_persisting db (deleteEmptyRooms w rs db)"
proof (induction rs arbitrary: db)
  case Nil
  show ?case by (simp add: self_persisting_refl)
next
  case (Cons r rs)
  obtain res db1 where c: "db_CountParticipants w r db = (res, db1)"
    by (cases "db_CountParticipants w r db")
  have s1: "self_persisting db db1"
    using self_persisting_CountParticipants [of db w r] c by simp
  have s2: "self_persisting db (snd (db_DeleteRoom w r db1))"
    using self_persisting_trans [OF s1 self_persisting_DeleteRoom] .
  show ?case
    using self_persisting_trans [OF s1 Cons.IH [where db = db1]]
      self_persisting_trans [OF s2 Cons.IH [where db = "snd (db_DeleteRoom w r db1)"]]
    by (cases res) (simp_all add: c)
qed

lemma self_persisting_deleteRooms:
  "self_persisting db (deleteRooms w rs db)"
proof (induction rs arbitrary: db)
  case Nil
  show ?case by (simp add: self_persisting_refl)
next
  case (Cons r rs)
  show ?case
    using self_persisting_trans [OF self_persisting_DeleteRoom Cons.IH] by simp
qed

lemma self_persisting_cleanupParticipants:
  "self_persisting db (cleanupParticipants w t db)"
proof -
  obtain res db1 where q: "db_GetInactiveParticipants w t db = (res, db1)"
    by (cases "db_GetInactiveParticipants w t db")
  have s1: "self_persisting db db1"
    using self_persisting_GetInactiveParticipants [of db w t] q by simp
  show ?thesis
  proof (cases res)
    case (Inl e)
    then show ?thesis using s1 by (simp add: cleanupParticipants_def q)
  next
    case (Inr ps)
    obtain rs db2 where ri: "removeInactive w ps [] db1 = (rs, db2)"
      by (cases "removeInactive w ps [] db1")
    have s2: "self_persisting db db2"
      using self_persisting_trans [OF s1 self_persisting_removeInactive [of db1 w ps "[]"]] ri
      by simp
    have s3: "self_persisting db (deleteEmptyRooms w (mapOrder w rs) db2)"
      using self_persisting_trans [OF s2 self_persisting_deleteEmptyRooms] .
    show ?thesis
      using s1 s3 by (simp add: cleanupParticipants_def q Inr ri)
  qed
qed

lemma self_persisting_cleanupRooms:
  "self_persisting db (cleanupRooms w t db)"
proof -
  obtain res db1 where q: "db_GetInactiveRooms w t db = (res, db1)"
    by (cases "db_GetInactiveRooms w t db")
  have s1: "self_persisting db db1"
    using self_persisting_GetInactiveRooms [of db w t] q by simp
  show ?thesis
    using s1 self_persisting_trans [OF s1 self_persisting_deleteRooms]
    by (cases res) (simp_all add: cleanupRooms_def q)
qed

lemma self_persisting_cleanup:
  "self_persisting db (cleanup w timeout db)"
  using self_persisting_trans [OF self_persisting_cleanupParticipants self_persisting_cleanupRooms]
  by (simp add: cleanup_def Let_def)

lemma db_GetParticipant_id:
  "db_GetParticipant w ident db = (Inr p, db') \<Longrightarrow> pID p = ident"
  by (auto simp: db_defs doRequest_def Let_def split: if_splits list.splits dest: filter_eq_ConsD)

lemma JoinRoom_trace:
  "persist_then_broadcast (issued db (snd (JoinRoom w uuid roomID username avatar db))) \<and>
   join_precedes_bump (issued db (snd (JoinRoom w uuid roomID username avatar db)))"
  by (auto simp: JoinRoom_def db_defs doRequest_def Let_def issued_def persist_then_broadcast_def
      join_precedes_bump_def committed_def bumps_def
      split: list.splits prod.splits option.splits sum.splits if_splits)

lemma LeaveRoom_trace:
  "persist_then_broadcast (issued db (snd (LeaveRoom w roomID participantID db)))"
proof -
  obtain fetched db1 where g: "db_GetParticipant w participantID db = (fetched, db1)"
    by (cases "db_GetParticipant w participantID db")
  have r1: "\<exists>ok. requests db1 = requests db @ [(ReqGetParticipant participantID, ok)]"
    using g by (auto simp: db_defs doRequest_def Let_def split: if_splits list.splits)
  have idp: "pID p = participantID" if "fetched = Inr p" for p
    using db_GetParticipant_id g that by blast
  show ?thesis
    using r1 idp
    by (cases fetched)
       (auto simp: LeaveRoom_def g db_RemoveParticipant_def db_BroadcastParticipantEvent_def
         db_CountParticipants_def db_GetParticipants_def db_DeleteRoom_def
         doRequest_def Let_def issued_def persist_then_broadcast_def committed_def
         split: prod.splits option.splits sum.splits if_splits)
qed

text \<open>
  Claim C2, as the code has it. In every run of \<open>JoinRoom\<close>, of \<open>LeaveRoom\<close> and of a
  cleanup sweep, whichever requests fail, a participant event is broadcast only after
  the store mutation it reports has succeeded: the insert of the participant for a join,
  the delete of the participant for a leave. In \<open>JoinRoom\<close> the last-active bump of the
  room is not part of what precedes the event: it is issued after the broadcast.
\<close>

theorem persist_then_broadcast_holds:
  "persist_then_broadcast (issued db (snd (JoinRoom w uuid roomID username avatar db))) \<and>
   join_precedes_bump (issued db (snd (JoinRoom w uuid roomID username avatar db))) \<and>
   persist_then_broadcast (issued db (snd (LeaveRoom w roomID participantID db))) \<and>
   persist_then_broadcast (issued db (cleanup w timeout db))"
  using JoinRoom_trace [of db w uuid roomID username avatar] LeaveRoom_trace [of db w roomID participantID]
    self_persisting_cleanup [of db w timeout]
  by (simp add: persist_then_broadcast_def self_persisting_def)

lemma JoinRoom_example_trace:
  "issued db_standup (snd (JoinRoom world_ok ''ben-2'' ''a1b2c3d4'' ''Ben'' ''owl'' db_standup)) =
     [(ReqGetRoom ''a1b2c3d4'', True),
      (ReqAddParticipant \<lparr> pID = ''ben-2'', pRoomID = ''a1b2c3d4'', pUsername = ''Ben'', pAvatar = ''owl'',
           pJoinedAt = 100000000001, pLastActiveAt = 100000000001 \<rparr>, True),
      (ReqBroadcastParticipant ''a1b2c3d4'' ''join''
         \<lparr> pID = ''ben-2'', pRoomID = ''a1b2c3d4'', pUsername = ''Ben'', pAvatar = ''owl'',
           pJoinedAt = 100000000001, pLastActiveAt = 100000000001 \<rparr>, True),
      (ReqUpdateRoomActivity ''a1b2c3d4'' 100000000003, True),
      (ReqGetParticipants ''a1b2c3d4'', True)]"
  by (simp add: eval_defs issued_def)

theorem persist_then_broadcast_holds_witness:
  "issued db_ann (snd (LeaveRoom world_ok ''a1b2c3d4'' ''ann-1'' db_ann)) =
     [(ReqGetParticipant ''ann-1'', True), (ReqRemoveParticipant ''ann-1'', True),
      (ReqBroadcastParticipant ''a1b2c3d4'' ''leave'' ann, True),
      (ReqGetParticipants ''a1b2c3d4'', True), (ReqDeleteRoom ''a1b2c3d4'', True)] \<and>
   persist_then_broadcast (issued db_ann (snd (JoinRoom world_ok ''ben-2'' ''a1b2c3d4'' ''Ben'' ''owl'' db_ann))) \<and>
   join_precedes_bump (issued db_ann (snd (JoinRoom world_ok ''ben-2'' ''a1b2c3d4'' ''Ben'' ''owl'' db_ann))) \<and>
   persist_then_broadcast (issued db_ann (snd (LeaveRoom world_ok ''a1b2c3d4'' ''ann-1'' db_ann))) \<and>
   persist_then_broadcast (issued db_ann (cleanup world_ok five_minutes db_ann))"
proof -
  have "issued db_ann (snd (LeaveRoom world_ok ''a1b2c3d4'' ''ann-1'' db_ann)) =
     [(ReqGetParticipant ''ann-1'', True), (ReqRemoveParticipant ''ann-1'', True),
      (ReqBroadcastParticipant ''a1b2c3d4'' ''leave'' ann, True),
      (ReqGetParticipants ''a1b2c3d4'', True), (ReqDeleteRoom ''a1b2c3d4'', True)]"
    by (simp add: eval_defs issued_def)
  then show ?thesis
    using persist_then_broadcast_holds [of db_ann world_ok "''ben-2''" "''a1b2c3d4''" "''Ben''" "''owl''" "''ann-1''" five_minutes]
    by simp
qed

text \<open>
  The claim as it is stated also puts the room's last-active bump before the join event.
  That fails on the join of Ben into the room "Standup": the requests are the lookup of
  the room, the insert, the broadcast, and only then the bump.
\<close>

theorem bump_before_join_event_counterexample:
  "\<not> (persist_then_broadcast (issued db_standup (snd (JoinRoom world_ok ''ben-2'' ''a1b2c3d4'' ''Ben'' ''owl'' db_standup))) \<and>
      bump_precedes_join (issued db_standup (snd (JoinRoom world_ok ''ben-2'' ''a1b2c3d4'' ''Ben'' ''owl'' db_standup))))"
  by (simp add: eval_defs issued_def bump_precedes_join_def bumps_def)

section \<open>The scheduler\<close>

lemma cleanup_issues_requests:
  "issued db (cleanup w timeout db) \<noteq> []"
proof -
  let ?t = "clock w (length (requests db)) - timeout"
  obtain res db1 where q: "db_GetInactiveParticipants w ?t db = (res, db1)"
    by (cases "db_GetInactiveParticipants w ?t db")
  have l1: "length (requests db1) = Suc (length (requests db))"
    using q by (auto simp: db_defs doRequest_def Let_def split: if_splits)
  have grow: "length (requests a) \<le> length (requests b)" if "self_persisting a b" for a b
    using that by (metis self_persisting_def le_add1 length_append)
  have "length (requests db1) \<le> length (requests (cleanupParticipants w ?t db))"
  proof (cases res)
    case (Inl e)
    then show ?thesis by (simp add: cleanupParticipants_def q)
  next
    case (Inr ps)
    obtain rs db2 where ri: "removeInactive w ps [] db1 = (rs, db2)"
      by (cases "removeInactive w ps [] db1")
    have "self_persisting db1 (deleteEmptyRooms w (mapOrder w rs) db2)"
      using self_persisting_trans [OF self_persisting_removeInactive [of db1 w ps "[]"]
          self_persisting_deleteEmptyRooms] ri by simp
    then show ?thesis
      using grow by (simp add: cleanupParticipants_def q Inr ri)
  qed
  moreover have "length (requests (cleanupParticipants w ?t db)) \<le> length (requests (cleanup w timeout db))"
    using grow [OF self_persisting_cleanupRooms] by (simp add: cleanup_def Let_def)
  ultimately have "length (requests db) < length (requests (cleanup w timeout db))"
    using l1 by linarith
  then show ?thesis by (simp add: issued_def)
qed

text \<open>
  Claim C5 asks for one full sweep at process start, before the first interval has
  elapsed. \<open>Start\<close> does not do that: until the first tick it has issued no request at
  all, while a sweep always issues at least one; the first sweep is the one of the first
  tick.
\<close>

theorem Start_runs_no_sweep_before_first_tick:
  "Start w timeout [] db = db \<and> issued db (Start w timeout [] db) = [] \<and>
   issued db (cleanup w timeout db) \<noteq> [] \<and>
   Start w timeout [Tick] db = cleanup w timeout db"
  using cleanup_issues_requests [of db w timeout] by (simp add: issued_def)

section \<open>Leaving twice\<close>

text \<open>
  Claim C6. When every request is served, the two ids of the call are URL-safe (as every
  generated id is, so that the filters the database applies are on these very ids) and
  the participant is no longer in the store, \<open>LeaveRoom\<close> sees "participant not found"
  from its lookup, still returns no error, broadcasts nothing and leaves the participants
  as they are. So a second leave after a first one (or after a sweep that removed the
  participant) adds no second event.
\<close>

theorem LeaveRoom_already_removed:
  assumes "\<And>n. served w n"
    and "participantID \<notin> pID ` set (participants db)"
    and "urlSafe participantID" and "urlSafe roomID"
  shows "fst (db_GetParticipant w participantID db) =
           Inl (NotFound (''participant not found: '' @ participantID)) \<and>
         fst (LeaveRoom w roomID participantID db) = None \<and>
         published (snd (LeaveRoom w roomID participantID db)) = published db \<and>
         participants (snd (LeaveRoom w roomID participantID db)) = participants db"
proof -
  have none: "filter (\<lambda>p. pID p = participantID) (participants db) = []"
    using assms(2) by (auto simp: filter_empty_conv)
  have same: "filter (\<lambda>p. pID p \<noteq> participantID) (participants db) = participants db"
    using assms(2) by (auto simp: filter_id_conv)
  show ?thesis
    using assms(2)
    by (auto simp: LeaveRoom_def db_defs doRequest_served [OF assms(1)] none same Let_def
        filter_empty_conv filter_id_conv)
qed

theorem LeaveRoom_already_removed_witness:
  "fst (LeaveRoom world_ok ''a1b2c3d4'' ''ann-1''
          (snd (LeaveRoom world_ok ''a1b2c3d4'' ''ann-1'' db_ann))) = None \<and>
   published (snd (LeaveRoom world_ok ''a1b2c3d4'' ''ann-1''
          (snd (LeaveRoom world_ok ''a1b2c3d4'' ''ann-1'' db_ann)))) =
     [ParticipantEvent ''room:a1b2c3d4'' ''leave'' ''ann-1'' ''a1b2c3d4'' ''Ann'' ''fox'']"
proof -
  let ?db1 = "snd (LeaveRoom world_ok ''a1b2c3d4'' ''ann-1'' db_ann)"
  have s: "\<And>n. served world_ok n" by (simp add: world_ok_def)
  have gone: "''ann-1'' \<notin> pID ` set (participants ?db1)"
    by (simp add: eval_defs)
  have safe: "urlSafe ''ann-1''" "urlSafe ''a1b2c3d4''"
    by (simp_all add: urlSafe_def)
  have first: "published ?db1 =
     [ParticipantEvent ''room:a1b2c3d4'' ''leave'' ''ann-1'' ''a1b2c3d4'' ''Ann'' ''fox'']"
    by (simp add: eval_defs)
  show ?thesis
    using LeaveRoom_already_removed [OF s gone safe] first by simp
qed

section \<open>Backpressure in the hub\<close>

text \<open>
  What the loop of a broadcast does to any room: over distinct clients whose channels are
  open, it attempts one delivery to every target, counts the deliveries, and takes the
  clients whose channel was full out of the room's set.
\<close>

lemma fanout_result:
  assumes "distinct cs" and "hubRooms h (bRoomID msg) = Some members"
    and "\<forall>c \<in> set cs. is_target msg c \<longrightarrow> \<not> sendClosed (conns h c)"
  shows "fanout msg cs n h =
           Inr (n + length (filter (\<lambda>c. is_target msg c \<and> has_room h c) cs),
                h\<lparr> hubRooms := (hubRooms h)(bRoomID msg \<mapsto>
                                   members - {c \<in> set cs. is_target msg c \<and> \<not> has_room h c}),
                    conns := (\<lambda>c. if c \<in> set cs \<and> is_target msg c then attempt msg (conns h c)
                                   else conns h c) \<rparr>)"
  using assms
  supply fanout.simps(2) [simp del]
proof (induction cs arbitrary: n h members)
  case Nil
  have "(hubRooms h)(bRoomID msg \<mapsto> members) = hubRooms h"
    using Nil.prems(2) by (rule map_upd_triv)
  then show ?case by simp
next
  case (Cons c cs)
  have d: "distinct cs" "c \<notin> set cs" using Cons.prems(1) by simp_all
  show ?case
  proof (cases "is_target msg c")
    case False
    then have skip: "fanout msg (c # cs) n h = fanout msg cs n h"
      by (auto simp: is_target_def fanout.simps(2))
    have pre: "\<forall>x \<in> set cs. is_target msg x \<longrightarrow> \<not> sendClosed (conns h x)"
      using Cons.prems(3) by simp
    have "{x \<in> set (c # cs). is_target msg x \<and> \<not> has_room h x} =
          {x \<in> set cs. is_target msg x \<and> \<not> has_room h x}"
      using False by auto
    moreover have "(\<lambda>x. if x \<in> set (c # cs) \<and> is_target msg x then attempt msg (conns h x) else conns h x) =
          (\<lambda>x. if x \<in> set cs \<and> is_target msg x then attempt msg (conns h x) else conns h x)"
      using False by auto
    ultimately show ?thesis
      using Cons.IH [OF d(1) Cons.prems(2) pre, of n] False by (simp add: skip)
  next
    case True
    then have open_c: "\<not> sendClosed (conns h c)" using Cons.prems(3) by simp
    have ns: "\<not> (bSender msg \<noteq> None \<and> Some c = bSender msg)"
      using True by (auto simp: is_target_def)
    show ?thesis
    proof (cases "has_room h c")
      case room: True
      let ?h2 = "h\<lparr> conns := (conns h)(c := (conns h c)\<lparr> send := send (conns h c) @ [bMessage msg] \<rparr>) \<rparr>"
      have step: "fanout msg (c # cs) n h = fanout msg cs (n + 1) ?h2"
        using ns open_c room by (auto simp: has_room_def fanout.simps(2))
      have same: "has_room ?h2 x = has_room h x" "conns ?h2 x = conns h x" if "x \<in> set cs" for x
        using that d(2) by (auto simp: has_room_def)
      have pre: "\<forall>x \<in> set cs. is_target msg x \<longrightarrow> \<not> sendClosed (conns ?h2 x)"
        using Cons.prems(3) d(2) by auto
      have rooms2: "hubRooms ?h2 (bRoomID msg) = Some members"
        using Cons.prems(2) by simp
      have f: "filter (\<lambda>x. is_target msg x \<and> has_room ?h2 x) cs =
               filter (\<lambda>x. is_target msg x \<and> has_room h x) cs"
        using same by (intro filter_cong) auto
      have s: "{x \<in> set cs. is_target msg x \<and> \<not> has_room ?h2 x} =
               {x \<in> set (c # cs). is_target msg x \<and> \<not> has_room h x}"
        using same room by auto
      have g: "(\<lambda>x. if x \<in> set cs \<and> is_target msg x then attempt msg (conns ?h2 x) else conns ?h2 x) =
               (\<lambda>x. if x \<in> set (c # cs) \<and> is_target msg x then attempt msg (conns h x) else conns h x)"
        using same True room d(2) by (auto simp: fun_eq_iff attempt_def has_room_def)
      show ?thesis
        unfolding step
        using Cons.IH [OF d(1) rooms2 pre, of "n + 1"] True room
        by (simp only: f s g) simp
    next
      case full: False
      let ?h2 = "h\<lparr> hubRooms := (hubRooms h)(bRoomID msg \<mapsto> members - {c}),
                    conns := (conns h)(c := (conns h c)\<lparr> sendClosed := True \<rparr>) \<rparr>"
      have step: "fanout msg (c # cs) n h = fanout msg cs n ?h2"
        using ns open_c full Cons.prems(2) by (auto simp: has_room_def fanout.simps(2))
      have same: "has_room ?h2 x = has_room h x" "conns ?h2 x = conns h x" if "x \<in> set cs" for x
        using that d(2) by (auto simp: has_room_def)
      have pre: "\<forall>x \<in> set cs. is_target msg x \<longrightarrow> \<not> sendClosed (conns ?h2 x)"
        using Cons.prems(3) d(2) by auto
      have rooms2: "hubRooms ?h2 (bRoomID msg) = Some (members - {c})"
        by simp
      have f: "filter (\<lambda>x. is_target msg x \<and> has_room ?h2 x) cs =
               filter (\<lambda>x. is_target msg x \<and> has_room h x) cs"
        using same by (intro filter_cong) auto
      have s: "members - {c} - {x \<in> set cs. is_target msg x \<and> \<not> has_room ?h2 x} =
               members - {x \<in> set (c # cs). is_target msg x \<and> \<not> has_room h x}"
        using same True full by auto
      have g: "(\<lambda>x. if x \<in> set cs \<and> is_target msg x then attempt msg (conns ?h2 x) else conns ?h2 x) =
               (\<lambda>x. if x \<in> set (c # cs) \<and> is_target msg x then attempt msg (conns h x) else conns h x)"
        using same True full d(2) by (auto simp: fun_eq_iff attempt_def has_room_def)
      show ?thesis
        unfolding step
        using Cons.IH [OF d(1) rooms2 pre, of n] True full
        by (simp only: f s g) (simp cong: if_cong)
    qed
  qed
qed

lemma storeMessageIfApplicable_hub:
  "hubRooms (storeMessageIfApplicable env h roomID raw) = hubRooms h"
  "conns (storeMessageIfApplicable env h roomID raw) = conns h"
  by (simp_all add: storeMessageIfApplicable_def Let_def split: option.splits prod.splits)

text \<open>
  Claim C9, as the code has it. A room has the clients \<open>cs\<close>, all with open channels;
  exactly one of them, \<open>s\<close>, has a full channel, and \<open>s\<close> is not the sender of the
  broadcast. Then, in whatever order the clients are visited, the broadcast returns
  (no panic, and nothing in it waits): every other client that is not the sender has the
  payload queued behind what it had, \<open>s\<close> is out of the room's set with its channel
  closed, and the number of deliveries is the number of clients other than \<open>s\<close> and the
  sender.
\<close>

theorem saturated_client_dropped:
  assumes room: "hubRooms h (bRoomID msg) = Some cs"
    and order: "set (rangeOrder env cs) = cs" "distinct (rangeOrder env cs)"
    and opened: "\<forall>c \<in> cs. \<not> sendClosed (conns h c)"
    and sat: "s \<in> cs" "length (send (conns h s)) = sendCapacity"
    and others: "\<forall>c \<in> cs - {s}. length (send (conns h c)) < sendCapacity"
    and not_sender: "bSender msg \<noteq> Some s"
  shows "backpressure_outcome env h msg s \<and>
         (\<exists>h'. broadcastToRoom env h msg = Inr (card (cs - {s} - set_option (bSender msg)), h') \<and>
               roomClients h' (bRoomID msg) = cs - {s})"
proof -
  let ?h1 = "storeMessageIfApplicable env h (bRoomID msg) (bMessage msg)"
  let ?cs = "rangeOrder env cs"
  let ?h' = "?h1\<lparr> hubRooms := (hubRooms ?h1)(bRoomID msg \<mapsto>
                                   cs - {c \<in> set ?cs. is_target msg c \<and> \<not> has_room ?h1 c}),
                    conns := (\<lambda>c. if c \<in> set ?cs \<and> is_target msg c then attempt msg (conns ?h1 c)
                                   else conns ?h1 c) \<rparr>"
  have rc: "roomClients h (bRoomID msg) = cs" by (simp add: roomClients_def room)
  have room1: "hubRooms ?h1 (bRoomID msg) = Some cs"
    by (simp add: storeMessageIfApplicable_hub room)
  have open1: "\<forall>c \<in> set ?cs. is_target msg c \<longrightarrow> \<not> sendClosed (conns ?h1 c)"
    using opened order(1) by (simp add: storeMessageIfApplicable_hub)
  have run: "broadcastToRoom env h msg =
      Inr (0 + length (filter (\<lambda>c. is_target msg c \<and> has_room ?h1 c) ?cs), ?h')"
    unfolding broadcastToRoom_def Let_def rc
    by (rule fanout_result [OF order(2) room1 open1])
  have hr: "has_room ?h1 c = (c \<noteq> s)" if "c \<in> cs" for c
    using that sat others by (auto simp: has_room_def storeMessageIfApplicable_hub)
  have tgt: "is_target msg s" using not_sender by (simp add: is_target_def)
  have removed: "{c \<in> set ?cs. is_target msg c \<and> \<not> has_room ?h1 c} = {s}"
    using hr tgt sat(1) order(1) by auto
  have members: "roomClients ?h' (bRoomID msg) = cs - {s}"
    by (simp add: roomClients_def removed)
  have "{c. is_target msg c \<and> has_room ?h1 c} \<inter> set ?cs = cs - {s} - set_option (bSender msg)"
    using hr order(1) by (auto simp: is_target_def)
  then have count: "length (filter (\<lambda>c. is_target msg c \<and> has_room ?h1 c) ?cs) =
      card (cs - {s} - set_option (bSender msg))"
    using distinct_length_filter [OF order(2), of "\<lambda>c. is_target msg c \<and> has_room ?h1 c"] by simp
  have delivered: "delivered_to_others h msg s ?h'"
    unfolding delivered_to_others_def rc
  proof
    fix c assume c: "c \<in> cs - {s}"
    show "bSender msg = Some c \<or> send (conns ?h' c) = send (conns h c) @ [bMessage msg]"
    proof (cases "bSender msg = Some c")
      case True
      then show ?thesis by simp
    next
      case False
      have "length (send (conns h c)) < sendCapacity" using others c by blast
      then show ?thesis
        using False c order(1)
        by (simp add: is_target_def attempt_def storeMessageIfApplicable_hub)
    qed
  qed
  have closed: "sendClosed (conns ?h' s)"
    using sat order(1) tgt by (simp add: attempt_def storeMessageIfApplicable_hub)
  have "dropped msg s ?h'"
    using members closed by (simp add: dropped_def)
  then have "backpressure_outcome env h msg s"
    using delivered by (simp add: backpressure_outcome_def run)
  moreover have "broadcastToRoom env h msg = Inr (card (cs - {s} - set_option (bSender msg)), ?h')"
    using run count by simp
  ultimately show ?thesis using members by blast
qed

lemmas hub_eval = hub_three_def env_plain_def typing_from_def idle_conn_def NewHub_def
  registerClient_def roomClients_def broadcastToRoom_def storeMessageIfApplicable_def
  sendCapacity_def backpressure_outcome_def delivered_to_others_def dropped_def Let_def

lemma hub_three_room: "hubRooms hub_three ''a1b2c3d4'' = Some {1, 2, 3}"
  by (auto simp: hub_eval)

theorem saturated_client_dropped_witness:
  "backpressure_outcome env_plain hub_three (typing_from (Some 1)) 3 \<and>
   (\<exists>h'. broadcastToRoom env_plain hub_three (typing_from (Some 1)) = Inr (1, h') \<and>
         roomClients h' ''a1b2c3d4'' = {1, 2})"
proof -
  have room: "hubRooms hub_three (bRoomID (typing_from (Some 1))) = Some {1, 2, 3}"
    using hub_three_room by (simp add: typing_from_def)
  have order: "set (rangeOrder env_plain {1, 2, 3}) = {1, 2, 3}" "distinct (rangeOrder env_plain {1, 2, 3})"
    by (auto simp: env_plain_def)
  have opened: "\<forall>c \<in> {1, 2, 3}. \<not> sendClosed (conns hub_three c)"
    by (simp add: hub_eval)
  have sat: "(3::nat) \<in> {1, 2, 3}" "length (send (conns hub_three 3)) = sendCapacity"
    by (simp_all add: hub_eval)
  have others: "\<forall>c \<in> {1, 2, 3} - {3}. length (send (conns hub_three c)) < sendCapacity"
    by (auto simp: hub_eval)
  have ns: "bSender (typing_from (Some 1)) \<noteq> Some 3" by (simp add: typing_from_def)
  have card: "card ({1, 2, 3} - {3} - set_option (bSender (typing_from (Some 1)))) = (1::nat)"
    "{1, 2, 3} - {3::nat} = {1, 2}"
    by (auto simp: typing_from_def)
  show ?thesis
    using saturated_client_dropped [OF room order opened sat others ns] card
    by (simp add: typing_from_def)
qed

text \<open>
  Without the condition on the sender the claim fails: the loop skips the sender before
  it attempts any delivery, so a sender whose own channel is full stays registered, with
  its channel open. Here client 3 is both saturated and the sender.
\<close>

theorem saturated_sender_stays_counterexample:
  "\<not> backpressure_outcome env_plain hub_three (typing_from (Some 3)) 3"
  by (simp add: hub_eval)


text \<open>
  The same holds in every room: whatever the state of its own channel, the sender of a
  broadcast is skipped by the loop, so it is still in the room's set afterwards and its
  connection (queue and channel) is as it was.
\<close>

lemma sender_stays_registered:
  assumes room: "hubRooms h (bRoomID msg) = Some cs"
    and order: "set (rangeOrder env cs) = cs" "distinct (rangeOrder env cs)"
    and opened: "\<forall>c \<in> cs. \<not> sendClosed (conns h c)"
    and sender: "bSender msg = Some s" "s \<in> cs"
  shows "\<exists>n h'. broadcastToRoom env h msg = Inr (n, h') \<and>
                s \<in> roomClients h' (bRoomID msg) \<and> conns h' s = conns h s"
proof -
  let ?h1 = "storeMessageIfApplicable env h (bRoomID msg) (bMessage msg)"
  let ?cs = "rangeOrder env cs"
  let ?h' = "?h1\<lparr> hubRooms := (hubRooms ?h1)(bRoomID msg \<mapsto>
                                   cs - {c \<in> set ?cs. is_target msg c \<and> \<not> has_room ?h1 c}),
                    conns := (\<lambda>c. if c \<in> set ?cs \<and> is_target msg c then attempt msg (conns ?h1 c)
                                   else conns ?h1 c) \<rparr>"
  have rc: "roomClients h (bRoomID msg) = cs" by (simp add: roomClients_def room)
  have room1: "hubRooms ?h1 (bRoomID msg) = Some cs"
    by (simp add: storeMessageIfApplicable_hub room)
  have open1: "\<forall>c \<in> set ?cs. is_target msg c \<longrightarrow> \<not> sendClosed (conns ?h1 c)"
    using opened order(1) by (simp add: storeMessageIfApplicable_hub)
  have run: "broadcastToRoom env h msg =
      Inr (0 + length (filter (\<lambda>c. is_target msg c \<and> has_room ?h1 c) ?cs), ?h')"
    unfolding broadcastToRoom_def Let_def rc
    by (rule fanout_result [OF order(2) room1 open1])
  have skipped: "\<not> is_target msg s" using sender(1) by (simp add: is_target_def)
  have "s \<in> roomClients ?h' (bRoomID msg)"
    using skipped sender(2) by (simp add: roomClients_def)
  moreover have "conns ?h' s = conns h s"
    using skipped by (simp add: storeMessageIfApplicable_hub)
  ultimately show ?thesis using run by blast
qed
section \<open>Creating a room\<close>

lemma length_hex_EncodeToString: "length (hex_EncodeToString bs) = 2 * length bs"
  by (induction bs) (simp_all add: hex_EncodeToString_def)

lemma length_encode_groups: "length (encode_groups data) = 4 * ((length data + 2) div 3)"
proof (induction data rule: encode_groups.induct)
  case (1 x y z rest)
  have "(length (x # y # z # rest) + 2) div 3 = Suc ((length rest + 2) div 3)"
    by simp
  then show ?case using "1.IH" by simp
qed simp_all

lemma length_base64Encode: "length (base64Encode data) = 4 * ((length data + 2) div 3)"
  by (simp add: base64Encode_def base64Encode_loop_groups length_encode_groups)

lemma CreateRoom_result:
  assumes "CreateRoom w idEntropy keyEntropy name db = (Inr room, db')"
  shows "length (rID room) = 8 \<and> length (rEncryptionKey room) = 44 \<and>
         (\<exists>f. keyEntropy = Some f \<and> rEncryptionKey room = base64Encode (map f [0..<32])) \<and>
         rCreatedAt room = clock w (length (requests db)) \<and>
         rLastActiveAt room = clock w (length (requests db)) \<and>
         rooms db' = rooms db @ [room] \<and> published db' = published db"
  using assms
  by (auto simp: CreateRoom_def generateRoomID_def generateEncryptionKey_def rand_Read_def
      db_CreateRoom_def doRequest_def Let_def length_hex_EncodeToString length_base64Encode
      split: sum.splits option.splits prod.splits if_splits)

lemma CreateRoom_failure:
  assumes "CreateRoom w idEntropy keyEntropy name db = (Inl e, db')"
  shows "rooms db' = rooms db \<and> published db' = published db"
  using assms
  by (auto simp: CreateRoom_def generateRoomID_def generateEncryptionKey_def rand_Read_def
      db_CreateRoom_def doRequest_def Let_def
      split: sum.splits option.splits prod.splits if_splits)

lemma id_bytes: "map id_entropy [0..<4] = [200, 217, 234, 251]"
  by (simp add: id_entropy_def upt_rec)

lemma id_text: "hex_EncodeToString [200, 217, 234, 251] = ''c8d9eafb''"
  by (simp add: hex_EncodeToString_def hextable_def)

lemma key_bytes: "map key_entropy [0..<32] =
  [0, 1, 2, 3, 4, 5, 6, 7, 8, 9, 10, 11, 12, 13, 14, 15, 16, 17, 18, 19, 20, 21, 22, 23, 24, 25,
   26, 27, 28, 29, 30, 31]"
  by (simp add: key_entropy_def upt_rec)

lemma key_text: "base64Encode [0, 1, 2, 3, 4, 5, 6, 7, 8, 9, 10, 11, 12, 13, 14, 15, 16, 17, 18, 19, 20, 21, 22, 23, 24, 25,
   26, 27, 28, 29, 30, 31] = ''AAECAwQFBgcICQoLDA0ODxAREhMUFRYXGBkaGxwdHh8=''"
  by (simp add: base64Encode_def base64Encode_loop_groups sextet_char_def quantum3_def quantum2_def
      quantum1_def base64Chars_def)

lemma CreateRoom_example:
  "CreateRoom world_ok (Some id_entropy) (Some key_entropy) ''Standup'' db_empty =
     (Inr created,
      \<lparr> rooms = [created], participants = [], published = [],
        requests = [(ReqCreateRoom created, True)] \<rparr>)"
  by (simp add: CreateRoom_def generateRoomID_def generateEncryptionKey_def rand_Read_def
      id_bytes id_text key_bytes key_text db_CreateRoom_def doRequest_def Let_def
      world_ok_def db_empty_def created_def)

lemma CreateRoom_roomBroadcasts:
  "roomBroadcasts (issued db (snd (CreateRoom w idEntropy keyEntropy name db))) = []"
  by (auto simp: CreateRoom_def db_CreateRoom_def doRequest_def Let_def issued_def roomBroadcasts_def
      split: sum.splits option.splits prod.splits if_splits)

text \<open>
  Claim C4 has \<open>CreateRoom\<close> emit a "room created" event on the lobby channel once the
  room is persisted. What the code does: \<open>CreateRoom\<close> never publishes an event and
  never issues a room broadcast, whatever its arguments; creating "Standup" in an empty
  store persists the room (an id of eight hexadecimal characters, the base 64 text of
  the 32 key bytes, both timestamps at the time of the call) with the single request
  that inserts it, and the published events stay empty. \<open>db_BroadcastRoomEvent\<close> is never
  called.
\<close>

theorem CreateRoom_emits_no_event:
  "published (snd (CreateRoom w idEntropy keyEntropy name db)) = published db \<and>
   roomBroadcasts (issued db (snd (CreateRoom w idEntropy keyEntropy name db))) = [] \<and>
   CreateRoom world_ok (Some id_entropy) (Some key_entropy) ''Standup'' db_empty =
     (Inr created,
      \<lparr> rooms = [created], participants = [], published = [],
        requests = [(ReqCreateRoom created, True)] \<rparr>)"
  using CreateRoom_published [of w idEntropy keyEntropy name db]
    CreateRoom_roomBroadcasts [of db w idEntropy keyEntropy name] CreateRoom_example
  by simp

section \<open>Deleting a room publishes no room event\<close>

text \<open>
  Claim C3 has every deletion of a room followed by a "room deleted" event on the lobby
  channel. What the code does: \<open>LeaveRoom\<close> and the cleanup sweep leave the room events
  among the published events as they were, for every input. When Ann, the last
  participant, leaves, the room is deleted and the only event is Ann's leave; the same when
  a sweep removes Ann; and when a sweep deletes the stale, empty room, nothing is
  published at all. No room broadcast is among the requests of any of the three runs.
\<close>

theorem room_deleted_without_event:
  "roomEvents (published (snd (LeaveRoom w roomID participantID db))) = roomEvents (published db) \<and>
   roomEvents (published (cleanup w timeout db)) = roomEvents (published db) \<and>
   rooms (snd (LeaveRoom world_ok ''a1b2c3d4'' ''ann-1'' db_ann)) = [] \<and>
   published (snd (LeaveRoom world_ok ''a1b2c3d4'' ''ann-1'' db_ann)) =
     [ParticipantEvent ''room:a1b2c3d4'' ''leave'' ''ann-1'' ''a1b2c3d4'' ''Ann'' ''fox''] \<and>
   roomBroadcasts (requests (snd (LeaveRoom world_ok ''a1b2c3d4'' ''ann-1'' db_ann))) = [] \<and>
   rooms (cleanup world_late five_minutes db_ann) = [] \<and>
   published (cleanup world_late five_minutes db_ann) =
     [ParticipantEvent ''room:a1b2c3d4'' ''leave'' ''ann-1'' ''a1b2c3d4'' ''Ann'' ''fox''] \<and>
   roomBroadcasts (requests (cleanup world_late five_minutes db_ann)) = [] \<and>
   rooms (cleanup world_late five_minutes db_standup) = [] \<and>
   published (cleanup world_late five_minutes db_standup) = [] \<and>
   roomBroadcasts (requests (cleanup world_late five_minutes db_standup)) = []"
proof -
  have leave: "rooms (snd (LeaveRoom world_ok ''a1b2c3d4'' ''ann-1'' db_ann)) = [] \<and>
   published (snd (LeaveRoom world_ok ''a1b2c3d4'' ''ann-1'' db_ann)) =
     [ParticipantEvent ''room:a1b2c3d4'' ''leave'' ''ann-1'' ''a1b2c3d4'' ''Ann'' ''fox''] \<and>
   roomBroadcasts (requests (snd (LeaveRoom world_ok ''a1b2c3d4'' ''ann-1'' db_ann))) = []"
    by (simp add: eval_defs roomBroadcasts_def)
  have sweep: "rooms (cleanup world_late five_minutes db_ann) = [] \<and>
   published (cleanup world_late five_minutes db_ann) =
     [ParticipantEvent ''room:a1b2c3d4'' ''leave'' ''ann-1'' ''a1b2c3d4'' ''Ann'' ''fox''] \<and>
   roomBroadcasts (requests (cleanup world_late five_minutes db_ann)) = []"
    by (simp add: eval_defs roomBroadcasts_def)
  have stale: "rooms (cleanup world_late five_minutes db_standup) = [] \<and>
   published (cleanup world_late five_minutes db_standup) = [] \<and>
   roomBroadcasts (requests (cleanup world_late five_minutes db_standup)) = []"
    by (simp add: eval_defs roomBroadcasts_def)
  show ?thesis
    using LeaveRoom_roomEvents [of w roomID participantID db] cleanup_roomEvents [of w timeout db]
      leave sweep stale
    by simp
qed

section \<open>The messages of a deleted room\<close>

lemma RoomHandler_LeaveRoom_messages:
  "messageService (snd (RoomHandler_LeaveRoom w roomID body srv)) = messageService srv"
  by (simp add: RoomHandler_LeaveRoom_def split: option.splits prod.splits)

text \<open>
  Claim C8 has the message buffer of a room dropped when the room is destroyed. What
  the code does: neither the leave handler nor the cleanup worker touches the message
  service, for any input (\<open>DeleteRoomMessages\<close> has no caller). After Ann's leave is
  answered with 204 and the room is gone from the store, and likewise after a sweep has
  deleted the room, the message sent to it is still returned by \<open>GetMessages\<close>.
\<close>

theorem messages_outlive_room:
  "messageService (snd (RoomHandler_LeaveRoom w roomID body srv)) = messageService srv \<and>
   messageService (Server_cleanup w timeout srv) = messageService srv \<and>
   fst (RoomHandler_LeaveRoom world_ok ''a1b2c3d4'' (Some ''ann-1'') server_ann) = 204 \<and>
   rooms (database (snd (RoomHandler_LeaveRoom world_ok ''a1b2c3d4'' (Some ''ann-1'') server_ann))) = [] \<and>
   GetMessages (messageService (snd (RoomHandler_LeaveRoom world_ok ''a1b2c3d4'' (Some ''ann-1'') server_ann)))
     ''a1b2c3d4'' 0 = [hello] \<and>
   rooms (database (Server_cleanup world_late five_minutes server_ann)) = [] \<and>
   GetMessages (messageService (Server_cleanup world_late five_minutes server_ann)) ''a1b2c3d4'' 0 = [hello]"
proof -
  have "fst (LeaveRoom world_ok ''a1b2c3d4'' ''ann-1'' db_ann) = None"
    by (simp add: eval_defs)
  then obtain db' where leave: "LeaveRoom world_ok ''a1b2c3d4'' ''ann-1'' db_ann = (None, db')"
    by (cases "LeaveRoom world_ok ''a1b2c3d4'' ''ann-1'' db_ann") auto
  have "rooms (snd (LeaveRoom world_ok ''a1b2c3d4'' ''ann-1'' db_ann)) = []"
    by (simp add: eval_defs)
  then have r1: "rooms db' = []" by (simp add: leave)
  have r2: "rooms (cleanup world_late five_minutes db_ann) = []"
    by (simp add: eval_defs)
  have h: "fst (RoomHandler_LeaveRoom world_ok ''a1b2c3d4'' (Some ''ann-1'') server_ann) = 204 \<and>
      rooms (database (snd (RoomHandler_LeaveRoom world_ok ''a1b2c3d4'' (Some ''ann-1'') server_ann))) = []"
    using r1 by (simp add: RoomHandler_LeaveRoom_def server_ann_def leave)
  have m: "GetMessages (messageService server_ann) ''a1b2c3d4'' 0 = [hello]"
    by (simp add: server_ann_def GetMessages_def IsZero_def)
  show ?thesis
    using h m r2 RoomHandler_LeaveRoom_messages
    by (simp add: Server_cleanup_def server_ann_def)
qed

end
